theory Spec2Isabelle
  imports Complex_Main "HOL-Library.Word" "HOL-Library.Multiset"
begin

unbundle bit_operations_syntax

section \<open>Particle records and the particle store (particle.h)\<close>

text \<open>
  \<open>Vec3\<close> is declared in vectorbase.h, which is not among the sources. A vector is
  three \<open>Real\<close> components; \<open>Real\<close> is read as the real numbers, so rounding is not
  part of this development.
\<close>

datatype Vec3 = Vec3 (vx: real) (vy: real) (vz: real)

text \<open>
  Modelled from the spec: the operators and functions of vectorbase.h, which is not among
  the sources, with their usual meaning on three-dimensional vectors (the spec speaks of
  3D vectors, edge lengths and distances without defining them).
\<close>

definition vadd :: "Vec3 \<Rightarrow> Vec3 \<Rightarrow> Vec3" where
  "vadd a b = Vec3 (vx a + vx b) (vy a + vy b) (vz a + vz b)"

definition vsub :: "Vec3 \<Rightarrow> Vec3 \<Rightarrow> Vec3" where
  "vsub a b = Vec3 (vx a - vx b) (vy a - vy b) (vz a - vz b)"

definition smul :: "real \<Rightarrow> Vec3 \<Rightarrow> Vec3" where
  "smul c a = Vec3 (c * vx a) (c * vy a) (c * vz a)"

definition dot :: "Vec3 \<Rightarrow> Vec3 \<Rightarrow> real" where
  "dot a b = vx a * vx b + vy a * vy b + vz a * vz b"

definition cross :: "Vec3 \<Rightarrow> Vec3 \<Rightarrow> Vec3" where
  "cross a b = Vec3 (vy a * vz b - vz a * vy b) (vz a * vx b - vx a * vz b) (vx a * vy b - vy a * vx b)"

definition normSquare :: "Vec3 \<Rightarrow> real" where
  "normSquare a = dot a a"

definition norm3 :: "Vec3 \<Rightarrow> real" where
  "norm3 a = sqrt (normSquare a)"

text \<open>\<open>struct BasicParticleData { Vec3 pos; int flag; }\<close>, the flag a 32-bit \<open>int\<close>.\<close>

record BasicParticleData =
  pos :: Vec3
  flag :: "32 word"

text \<open>\<open>PDELETE = (1<<10)\<close> of \<open>enum ParticleType\<close>.\<close>

definition PDELETE :: "32 word" where
  "PDELETE = push_bit 10 1"

text \<open>\<open>const int DELETE_PART = 20\<close>.\<close>

definition DELETE_PART :: int where
  "DELETE_PART = 20"

text \<open>
  \<open>ParticleSystem<S>\<close> with \<open>S = BasicParticleData\<close>: the two counters and the data
  vector. The counters are C++ \<open>int\<close>; they stay far below \<open>2^31\<close> (a counter is
  reset by every compaction), so they are unbounded integers here.
\<close>

record ParticleSystem =
  mDeletes :: int
  mDeleteChunk :: int
  mData :: "BasicParticleData list"

text \<open>
  An access outside a vector is undefined behaviour in C++. The model makes it a value:
  every function that indexes with a caller-supplied or table-supplied index returns
  \<open>Inl OutOfRange\<close> where the source would read or write outside the vector.
  \<open>Inl NonFinite\<close> marks the places where the floating-point computation leaves the
  finite numbers (a division by zero, a logarithm of a non-positive number) or stores such
  a value in a position: the real numbers of this model do not follow the code there.
\<close>

datatype error = OutOfRange | NonFinite

text \<open>The constructor: \<open>mDeletes(0), mDeleteChunk(0)\<close> and an empty vector.\<close>

definition ParticleSystem_init :: ParticleSystem where
  "ParticleSystem_init = \<lparr>mDeletes = 0, mDeleteChunk = 0, mData = []\<rparr>"

text \<open>\<open>(flag & PDELETE) != 0\<close>: the record is marked as deleted.\<close>

definition dead :: "BasicParticleData \<Rightarrow> bool" where
  "dead p = (flag p AND PDELETE \<noteq> 0)"

text \<open>\<open>size()\<close> and \<open>isActive(i)\<close>.\<close>

definition size_ps :: "'a ParticleSystem_scheme \<Rightarrow> int" where
  "size_ps s = int (length (mData s))"

definition isActive :: "'a ParticleSystem_scheme \<Rightarrow> int \<Rightarrow> error + bool" where
  "isActive s i =
     (if 0 \<le> i \<and> i < size_ps s then Inr (flag (mData s ! nat i) AND PDELETE = 0)
      else Inl OutOfRange)"

text \<open>
  \<open>add\<close>: \<open>mData.push_back(data); mDeleteChunk = mData.size() / DELETE_PART;
  return mData.size()-1\<close>. The result is the new index and the new store.
\<close>

definition add :: "BasicParticleData \<Rightarrow> 'a ParticleSystem_scheme \<Rightarrow> int \<times> 'a ParticleSystem_scheme" where
  "add d s =
     (let data = mData s @ [d]
      in (int (length data) - 1,
          s\<lparr>mData := data, mDeleteChunk := int (length data) div DELETE_PART\<rparr>))"

text \<open>\<open>std::vector::resize(n)\<close>: truncate, or pad with default-constructed records.\<close>

definition resize :: "nat \<Rightarrow> BasicParticleData list \<Rightarrow> BasicParticleData list" where
  "resize n d = take n d @ replicate (n - length d) \<lparr>pos = Vec3 0 0 0, flag = 0\<rparr>"

text \<open>
  The inner loop of \<open>ParticleSystem::compress\<close>, for a fixed slot \<open>i\<close>:
  \<open>while ((mData[i].flag & PDELETE) != 0) { nextRead--; mData[i] = mData[nextRead];
  mData[nextRead].flag = 0; }\<close>.
\<close>

function compress_while ::
  "nat \<Rightarrow> int \<Rightarrow> BasicParticleData list \<Rightarrow> error + (int \<times> BasicParticleData list)" where
  "compress_while i nextRead d =
     (if dead (d ! i) then
        (if 0 \<le> nextRead - 1 \<and> nextRead - 1 < int (length d) then
           compress_while i (nextRead - 1)
             ((d[i := d ! nat (nextRead - 1)])
                [nat (nextRead - 1) := (d[i := d ! nat (nextRead - 1)] ! nat (nextRead - 1))\<lparr>flag := 0\<rparr>])
         else Inl OutOfRange)
      else Inr (nextRead, d))"
  by pat_completeness auto
termination
  by (relation "measure (\<lambda>(i, nextRead, d). nat nextRead)") auto

text \<open>The outer loop \<open>for (size_t i=0; i<mData.size(); i++)\<close>, over the slots still to visit.\<close>

fun compress_for ::
  "nat list \<Rightarrow> int \<Rightarrow> BasicParticleData list \<Rightarrow> error + (int \<times> BasicParticleData list)" where
  "compress_for [] nextRead d = Inr (nextRead, d)"
| "compress_for (i # js) nextRead d =
     (case compress_while i nextRead d of
        Inl e \<Rightarrow> Inl e
      | Inr (nextRead', d') \<Rightarrow> compress_for js nextRead' d')"

text \<open>
  \<open>ParticleSystem::compress\<close>: the two loops, then \<open>mData.resize(nextRead); mDeletes = 0;
  mDeleteChunk = mData.size() / DELETE_PART\<close>.
\<close>

definition compress :: "'a ParticleSystem_scheme \<Rightarrow> error + 'a ParticleSystem_scheme" where
  "compress s =
     (case compress_for [0..<length (mData s)] (int (length (mData s))) (mData s) of
        Inl e \<Rightarrow> Inl e
      | Inr (nextRead, d) \<Rightarrow>
          Inr (s\<lparr>mData := resize (nat nextRead) d, mDeletes := 0,
                 mDeleteChunk := int (length (resize (nat nextRead) d)) div DELETE_PART\<rparr>))"

text \<open>
  \<open>kill(i)\<close>: \<open>mData[i].flag |= PDELETE; if (++mDeletes > mDeleteChunk) compress();\<close>.
  \<open>compress\<close> is virtual, so the compaction that runs is a parameter: \<open>compress\<close> for a
  plain store, \<open>ConnectedParticleSystem_compress\<close> for a store with segments.
\<close>

definition kill_mark :: "nat \<Rightarrow> 'a ParticleSystem_scheme \<Rightarrow> 'a ParticleSystem_scheme" where
  "kill_mark i s =
     s\<lparr>mData := (mData s)[i := (mData s ! i)\<lparr>flag := flag (mData s ! i) OR PDELETE\<rparr>],
       mDeletes := mDeletes s + 1\<rparr>"

definition kill_with ::
  "('a ParticleSystem_scheme \<Rightarrow> error + 'a ParticleSystem_scheme) \<Rightarrow> int \<Rightarrow>
   'a ParticleSystem_scheme \<Rightarrow> error + 'a ParticleSystem_scheme" where
  "kill_with cmp i s =
     (if 0 \<le> i \<and> i < size_ps s then
        (if mDeletes (kill_mark (nat i) s) > mDeleteChunk (kill_mark (nat i) s)
         then cmp (kill_mark (nat i) s)
         else Inr (kill_mark (nat i) s))
      else Inl OutOfRange)"

definition kill :: "int \<Rightarrow> ParticleSystem \<Rightarrow> error + ParticleSystem" where
  "kill = kill_with compress"

section \<open>Segments and the connected store\<close>

text \<open>
  \<open>VortexRing\<close> is declared in vortexfilament.h, which is not among the sources; its
  fields are the ones the sources use: \<open>circulation\<close>, \<open>indices\<close> (a vector of
  \<open>int\<close>) and \<open>flag\<close> (here \<open>rflag\<close>, as \<open>flag\<close> is the particle's field).
\<close>

record VortexRing =
  circulation :: real
  indices :: "int list"
  rflag :: "32 word"

text \<open>\<open>ConnectedParticleSystem<BasicParticleData, VortexRing>\<close>: a store with \<open>mSegments\<close>.\<close>

record ConnectedParticleSystem = ParticleSystem +
  mSegments :: "VortexRing list"

definition ConnectedParticleSystem_init :: ConnectedParticleSystem where
  "ConnectedParticleSystem_init = \<lparr>mDeletes = 0, mDeleteChunk = 0, mData = [], mSegments = []\<rparr>"

text \<open>\<open>isSegActive(i)\<close> on a segment: \<open>(flag & PDELETE) == 0\<close>.\<close>

definition segActive :: "VortexRing \<Rightarrow> bool" where
  "segActive r = (rflag r AND PDELETE = 0)"

text \<open>
  \<open>VortexRing::renumber\<close>: \<open>indices[i] = _renumber[indices[i]]\<close> for every \<open>i\<close>. The
  table is a raw array; reading it outside its bounds is \<open>OutOfRange\<close>.
\<close>

fun renumber_indices :: "int list \<Rightarrow> int list \<Rightarrow> error + int list" where
  "renumber_indices tbl [] = Inr []"
| "renumber_indices tbl (k # ks) =
     (if 0 \<le> k \<and> k < int (length tbl) then
        (case renumber_indices tbl ks of
           Inl e \<Rightarrow> Inl e
         | Inr ks' \<Rightarrow> Inr (tbl ! nat k # ks'))
      else Inl OutOfRange)"

definition renumber :: "int list \<Rightarrow> VortexRing \<Rightarrow> error + VortexRing" where
  "renumber tbl r =
     (case renumber_indices tbl (indices r) of
        Inl e \<Rightarrow> Inl e
      | Inr ks \<Rightarrow> Inr (r\<lparr>indices := ks\<rparr>))"

text \<open>\<open>for (size_t i=0; i<mSegments.size(); i++) mSegments[i].renumber(renumber)\<close>.\<close>

fun renumber_segments :: "int list \<Rightarrow> VortexRing list \<Rightarrow> error + VortexRing list" where
  "renumber_segments tbl [] = Inr []"
| "renumber_segments tbl (r # rs) =
     (case renumber tbl r of
        Inl e \<Rightarrow> Inl e
      | Inr r' \<Rightarrow>
          (case renumber_segments tbl rs of
             Inl e \<Rightarrow> Inl e
           | Inr rs' \<Rightarrow> Inr (r' # rs')))"

text \<open>
  The reordering loop of \<open>ConnectedParticleSystem::compress\<close>:
  \<open>for (int i=0; i<nextRead; i++) if ((data[i].flag & PDELETE) != 0) { nextRead--;
  data[i] = data[nextRead]; data[nextRead].flag = 0; renumber_back[i] = nextRead; }
  else renumber_back[i] = i;\<close>. Inside the loop \<open>0 \<le> i < nextRead\<close>, and \<open>nextRead\<close>
  starts at the size, so both counters are natural numbers within the vector.
\<close>

function reorder ::
  "nat \<Rightarrow> nat \<Rightarrow> BasicParticleData list \<Rightarrow> int list \<Rightarrow> nat \<times> BasicParticleData list \<times> int list" where
  "reorder i nextRead d renumber_back =
     (if i < nextRead then
        (if dead (d ! i) then
           reorder (i + 1) (nextRead - 1)
             ((d[i := d ! (nextRead - 1)])
                [nextRead - 1 := (d[i := d ! (nextRead - 1)] ! (nextRead - 1))\<lparr>flag := 0\<rparr>])
             (renumber_back[i := int (nextRead - 1)])
         else reorder (i + 1) nextRead d (renumber_back[i := int i]))
      else (nextRead, d, renumber_back))"
  by pat_completeness auto
termination
  by (relation "measure (\<lambda>(i, nextRead, d, rb). nextRead - i)") auto

text \<open>\<open>for (int i=0; i<nextRead; i++) renumber[renumber_back[i]] = i;\<close>\<close>

fun accel :: "nat list \<Rightarrow> int list \<Rightarrow> int list \<Rightarrow> error + int list" where
  "accel [] renumber_back tbl = Inr tbl"
| "accel (i # js) renumber_back tbl =
     (if 0 \<le> renumber_back ! i \<and> renumber_back ! i < int (length tbl) then
        accel js renumber_back (tbl[nat (renumber_back ! i) := int i])
      else Inl OutOfRange)"

text \<open>
  The first half of \<open>ConnectedParticleSystem::compress\<close>: both tables start as \<open>-1\<close>
  everywhere; the result is the final \<open>nextRead\<close>, the reordered data (not yet
  resized) and the table \<open>renumber\<close>.
\<close>

definition renumber_table ::
  "BasicParticleData list \<Rightarrow> error + (nat \<times> BasicParticleData list \<times> int list)" where
  "renumber_table data =
     (case reorder 0 (length data) data (replicate (length data) (- 1)) of
        (nextRead, d, renumber_back) \<Rightarrow>
          (case accel [0..<nextRead] renumber_back (replicate (length data) (- 1)) of
             Inl e \<Rightarrow> Inl e
           | Inr tbl \<Rightarrow> Inr (nextRead, d, tbl)))"

text \<open>
  \<open>ConnectedParticleSystem::compress\<close>: the table, then \<open>renumber\<close> on every segment,
  then \<open>mData.resize(nextRead); mDeletes = 0; mDeleteChunk = size() / DELETE_PART\<close>.
\<close>

definition ConnectedParticleSystem_compress ::
  "'a ConnectedParticleSystem_scheme \<Rightarrow> error + 'a ConnectedParticleSystem_scheme" where
  "ConnectedParticleSystem_compress s =
     (case renumber_table (mData s) of
        Inl e \<Rightarrow> Inl e
      | Inr (nextRead, d, tbl) \<Rightarrow>
          (case renumber_segments tbl (mSegments s) of
             Inl e \<Rightarrow> Inl e
           | Inr segs \<Rightarrow>
               Inr (s\<lparr>mData := resize nextRead d, mDeletes := 0,
                      mDeleteChunk := int (length (resize nextRead d)) div DELETE_PART,
                      mSegments := segs\<rparr>)))"

text \<open>\<open>kill\<close> on a connected store runs the overriding compaction.\<close>

definition ConnectedParticleSystem_kill ::
  "int \<Rightarrow> ConnectedParticleSystem \<Rightarrow> error + ConnectedParticleSystem" where
  "ConnectedParticleSystem_kill = kill_with ConnectedParticleSystem_compress"

section \<open>Grid advection (particle.h)\<close>

text \<open>
  The body of \<open>KnAdvectInGrid\<close> for one particle. \<open>integrateMeshMAC\<close> (integrator.h)
  and the grid queries \<open>isInBounds(pos,1)\<close> and \<open>isObstacle(pos)\<close> (grid.h) are not among
  the sources; they are the parameters \<open>integrate\<close>, \<open>isInBounds1\<close> and \<open>isObstacle\<close>.
\<close>

definition KnAdvectInGrid_body ::
  "(Vec3 \<Rightarrow> Vec3) \<Rightarrow> (Vec3 \<Rightarrow> bool) \<Rightarrow> (Vec3 \<Rightarrow> bool) \<Rightarrow> BasicParticleData \<Rightarrow> BasicParticleData" where
  "KnAdvectInGrid_body integrate isInBounds1 isObstacle p =
     (if dead p then p
      else
        (if (\<not> isInBounds1 (vadd (pos p) (integrate (pos p))) \<or>
             isObstacle (vadd (pos p) (integrate (pos p)))) \<and>
            vx (vadd (pos p) (integrate (pos p))) > 5
         then p\<lparr>pos := vadd (pos p) (integrate (pos p)), flag := flag p OR PDELETE\<rparr>
         else p\<lparr>pos := vadd (pos p) (integrate (pos p))\<rparr>))"

text \<open>
  Modelled from the spec: the \<open>KERNEL(pts)\<close> macro is not among the sources; by the spec
  the kernel is the per-particle pass in which each unit writes only its own particle, so
  the body runs once for every slot \<open>i\<close> of the store.
\<close>

definition KnAdvectInGrid ::
  "(Vec3 \<Rightarrow> Vec3) \<Rightarrow> (Vec3 \<Rightarrow> bool) \<Rightarrow> (Vec3 \<Rightarrow> bool) \<Rightarrow>
   'a ParticleSystem_scheme \<Rightarrow> 'a ParticleSystem_scheme" where
  "KnAdvectInGrid integrate isInBounds1 isObstacle s =
     s\<lparr>mData := map (KnAdvectInGrid_body integrate isInBounds1 isObstacle) (mData s)\<rparr>"

section \<open>Vortex rings and the Biot-Savart kernel (vortexfilament.cpp)\<close>

text \<open>
  Modelled from the spec: the accessors \<open>size\<close>, \<open>idx0\<close>, \<open>idx1\<close> and \<open>idx\<close> of
  \<open>VortexRing\<close> (vortexfilament.h is not among the sources). By the spec, edge \<open>j\<close> of a
  ring of length \<open>N\<close> connects \<open>indices[j]\<close> to \<open>indices[(j+1) mod N]\<close>, and neighbours are
  taken with cyclic wraparound. The sources call them with \<open>0 \<le> j < N\<close> (and \<open>idx\<close> with
  \<open>-1 \<le> j \<le> N+1\<close>), where the index read is within the vector.
\<close>

definition ring_size :: "VortexRing \<Rightarrow> nat" where
  "ring_size r = length (indices r)"

definition idx0 :: "VortexRing \<Rightarrow> nat \<Rightarrow> int" where
  "idx0 r j = indices r ! j"

definition idx1 :: "VortexRing \<Rightarrow> nat \<Rightarrow> int" where
  "idx1 r j = indices r ! ((j + 1) mod length (indices r))"

definition idx :: "VortexRing \<Rightarrow> int \<Rightarrow> int" where
  "idx r j = indices r ! nat ((j + int (length (indices r))) mod int (length (indices r)))"


definition pos_at :: "BasicParticleData list \<Rightarrow> int \<Rightarrow> error + Vec3" where
  "pos_at d k = (if 0 \<le> k \<and> k < int (length d) then Inr (pos (d ! nat k)) else Inl OutOfRange)"

text \<open>
  Modelled from the spec: \<open>getNormalized\<close> and \<open>normalize\<close> of vectorbase.h, which is not
  among the sources: the vector scaled to length one; the zero vector, which has no
  direction, is left as it is.
\<close>

definition getNormalized :: "Vec3 \<Rightarrow> Vec3" where
  "getNormalized v = (if normSquare v = 0 then v else smul (1 / norm3 v) v)"








section \<open>Ring construction (vortexfilament.cpp)\<close>

text \<open>
  The loop of \<open>addRing\<close>: \<open>phi = (Real)i/(Real)number * M_PI * 2.0;
  p = position + radius * (u*cos(phi) + v*sin(phi)); num = add(BasicParticleData(p));
  ring.indices.push_back(num)\<close>.
\<close>

fun addRing_loop ::
  "Vec3 \<Rightarrow> real \<Rightarrow> Vec3 \<Rightarrow> Vec3 \<Rightarrow> int \<Rightarrow> nat list \<Rightarrow> VortexRing \<Rightarrow> 'a ParticleSystem_scheme \<Rightarrow>
   VortexRing \<times> 'a ParticleSystem_scheme" where
  "addRing_loop position radius u v number [] ring s = (ring, s)"
| "addRing_loop position radius u v number (i # js) ring s =
     addRing_loop position radius u v number js
       (ring\<lparr>indices := indices ring @
          [fst (add \<lparr>pos = vadd position (smul radius
                    (vadd (smul (cos (real i / real_of_int number * pi * 2)) u)
                          (smul (sin (real i / real_of_int number * pi * 2)) v))),
                  flag = 0\<rparr> s)]\<rparr>)
       (snd (add \<lparr>pos = vadd position (smul radius
                    (vadd (smul (cos (real i / real_of_int number * pi * 2)) u)
                          (smul (sin (real i / real_of_int number * pi * 2)) v))),
                  flag = 0\<rparr> s))"

text \<open>
  \<open>addRing\<close>: the normal is normalized, \<open>worldup\<close> is \<open>(0,1,0)\<close> unless
  \<open>norm(normal - worldup) < 1e-5\<close>, then \<open>(1,0,0)\<close>; \<open>u = cross(normal, worldup)\<close> and
  \<open>v = cross(normal, u)\<close>, both normalized; the ring starts as \<open>VortexRing ring(circulation)\<close>
  and is pushed to \<open>mSegments\<close> after the loop.
\<close>

definition addRing_worldup :: "Vec3 \<Rightarrow> Vec3" where
  "addRing_worldup normal =
     (if norm3 (vsub normal (Vec3 0 1 0)) < 1 / 10 ^ 5 then Vec3 1 0 0 else Vec3 0 1 0)"

definition addRing_u :: "Vec3 \<Rightarrow> Vec3" where
  "addRing_u normal =
     getNormalized (cross (getNormalized normal) (addRing_worldup (getNormalized normal)))"

definition addRing_v :: "Vec3 \<Rightarrow> Vec3" where
  "addRing_v normal = getNormalized (cross (getNormalized normal) (addRing_u normal))"

definition addRing ::
  "Vec3 \<Rightarrow> real \<Rightarrow> real \<Rightarrow> Vec3 \<Rightarrow> int \<Rightarrow> 'a ConnectedParticleSystem_scheme \<Rightarrow>
   'a ConnectedParticleSystem_scheme" where
  "addRing position circ radius normal number s =
     (case addRing_loop position radius (addRing_u normal) (addRing_v normal) number
             [0..<nat number] \<lparr>circulation = circ, indices = [], rflag = 0\<rparr> s of
        (ring, s') \<Rightarrow> s'\<lparr>mSegments := mSegments s' @ [ring]\<rparr>)"

section \<open>Remeshing (vortexfilament.cpp)\<close>

text \<open>
  Modelled from the spec: \<open>hermiteSpline\<close> and \<open>crTangent\<close> of interpol.h, which is not
  among the sources. By the spec the midpoint is "a cubic Hermite interpolation using the
  edge endpoints and their Catmull-Rom tangents (derived from the two neighboring points on
  each side)": the cubic Hermite basis at parameter \<open>t\<close>, and as tangent at a point half the
  difference of its two neighbours.
\<close>

definition hermiteSpline :: "Vec3 \<Rightarrow> Vec3 \<Rightarrow> Vec3 \<Rightarrow> Vec3 \<Rightarrow> real \<Rightarrow> Vec3" where
  "hermiteSpline p0 p1 m0 m1 t =
     vadd (vadd (smul (2 * t ^ 3 - 3 * t ^ 2 + 1) p0) (smul (t ^ 3 - 2 * t ^ 2 + t) m0))
          (vadd (smul (- 2 * t ^ 3 + 3 * t ^ 2) p1) (smul (t ^ 3 - t ^ 2) m1))"

definition crTangent :: "Vec3 \<Rightarrow> Vec3 \<Rightarrow> Vec3 \<Rightarrow> Vec3" where
  "crTangent pm1 p0 p1 = smul (1 / 2) (vsub p1 pm1)"

text \<open>
  \<open>map<int,int> insert\<close> as an association list; \<open>std::map::insert\<close> keeps an entry that
  is already there, \<open>find\<close> is \<open>map_of\<close>.
\<close>

definition map_insert :: "int \<Rightarrow> int \<Rightarrow> (int \<times> int) list \<Rightarrow> (int \<times> int) list" where
  "map_insert k v m = (if map_of m k = None then m @ [(k, v)] else m)"

text \<open>
  The scan \<open>for (int j=0; j<oldLen; j++)\<close> of one pass of \<open>remesh\<close> over ring \<open>r\<close>: an edge
  with \<open>l2 > maxLen2\<close> gets a midpoint particle through \<open>add\<close>, entered in \<open>insert\<close> at
  \<open>j+offset\<close>; the ring itself is not changed by the scan.
\<close>

fun remesh_scan ::
  "real \<Rightarrow> VortexRing \<Rightarrow> nat list \<Rightarrow> int \<Rightarrow> (int \<times> int) list \<Rightarrow> 'a ParticleSystem_scheme \<Rightarrow>
   error + ((int \<times> int) list \<times> 'a ParticleSystem_scheme)" where
  "remesh_scan maxLen2 r [] offset ins s = Inr (ins, s)"
| "remesh_scan maxLen2 r (j # js) offset ins s =
     (case pos_at (mData s) (idx0 r j) of
        Inl e \<Rightarrow> Inl e
      | Inr p0 \<Rightarrow>
          (case pos_at (mData s) (idx1 r j) of
             Inl e \<Rightarrow> Inl e
           | Inr p1 \<Rightarrow>
               (if normSquare (vsub p1 p0) > maxLen2 then
                  (case pos_at (mData s) (idx r (int j - 1)) of
                     Inl e \<Rightarrow> Inl e
                   | Inr p_1 \<Rightarrow>
                       (case pos_at (mData s) (idx r (int j + 2)) of
                          Inl e \<Rightarrow> Inl e
                        | Inr p2 \<Rightarrow>
                            remesh_scan maxLen2 r js (offset + 1)
                              (map_insert (int j + offset)
                                 (fst (add \<lparr>pos = hermiteSpline p0 p1 (crTangent p_1 p0 p1)
                                                    (crTangent p0 p1 p2) (1 / 2),
                                            flag = 0\<rparr> s)) ins)
                              (snd (add \<lparr>pos = hermiteSpline p0 p1 (crTangent p_1 p0 p1)
                                                 (crTangent p0 p1 p2) (1 / 2),
                                         flag = 0\<rparr> s))))
                else remesh_scan maxLen2 r js offset ins s)))"

text \<open>
  The renumbering \<open>for (int j=newLen-1; j>=0; j--)\<close>: a position found in \<open>insert\<close> gets
  the new particle, any other position gets \<open>r.indices[num--]\<close>.
\<close>

fun remesh_renumber :: "(int \<times> int) list \<Rightarrow> nat list \<Rightarrow> int \<Rightarrow> int list \<Rightarrow> error + int list" where
  "remesh_renumber ins [] num ind = Inr ind"
| "remesh_renumber ins (j # js) num ind =
     (case map_of ins (int j) of
        None \<Rightarrow>
          (if 0 \<le> num \<and> num < int (length ind)
           then remesh_renumber ins js (num - 1) (ind[j := ind ! nat num])
           else Inl OutOfRange)
      | Some v \<Rightarrow> remesh_renumber ins js num (ind[j := v]))"

text \<open>
  One pass of the \<open>for(;;)\<close> loop on segment \<open>i\<close>: the scan, \<open>break\<close> when nothing was
  inserted (result \<open>False\<close>), otherwise \<open>r.indices.resize(newLen)\<close> and the renumbering
  (result \<open>True\<close>: another pass follows). The loop of \<open>remesh\<close> takes every segment
  \<open>i < segSize()\<close>; it does not look at the segment's flag.
\<close>

definition remesh_pass ::
  "real \<Rightarrow> nat \<Rightarrow> 'a ConnectedParticleSystem_scheme \<Rightarrow>
   error + (bool \<times> 'a ConnectedParticleSystem_scheme)" where
  "remesh_pass maxLen2 i s =
     (case remesh_scan maxLen2 (mSegments s ! i) [0..<ring_size (mSegments s ! i)] 1 [] s of
        Inl e \<Rightarrow> Inl e
      | Inr (ins, s1) \<Rightarrow>
          (if ins = [] then Inr (False, s1)
           else
             (case remesh_renumber ins
                     (rev [0..<ring_size (mSegments s ! i) + length ins])
                     (int (ring_size (mSegments s ! i)) - 1)
                     (indices (mSegments s ! i) @ replicate (length ins) 0) of
                Inl e \<Rightarrow> Inl e
              | Inr ind \<Rightarrow>
                  Inr (True, s1\<lparr>mSegments := (mSegments s1)[i := (mSegments s ! i)\<lparr>indices := ind\<rparr>]\<rparr>))))"

text \<open>
  The \<open>for(;;)\<close> loop may run forever; \<open>fuel\<close> bounds the number of passes on one ring and
  \<open>None\<close> says that the bound was reached.
\<close>

fun remesh_ring ::
  "nat \<Rightarrow> real \<Rightarrow> nat \<Rightarrow> 'a ConnectedParticleSystem_scheme \<Rightarrow>
   (error + 'a ConnectedParticleSystem_scheme) option" where
  "remesh_ring 0 maxLen2 i s = None"
| "remesh_ring (Suc fuel) maxLen2 i s =
     (case remesh_pass maxLen2 i s of
        Inl e \<Rightarrow> Some (Inl e)
      | Inr (again, s') \<Rightarrow> if again then remesh_ring fuel maxLen2 i s' else Some (Inr s'))"

fun remesh_rings ::
  "nat \<Rightarrow> real \<Rightarrow> nat list \<Rightarrow> 'a ConnectedParticleSystem_scheme \<Rightarrow>
   (error + 'a ConnectedParticleSystem_scheme) option" where
  "remesh_rings fuel maxLen2 [] s = Some (Inr s)"
| "remesh_rings fuel maxLen2 (i # js) s =
     (case remesh_ring fuel maxLen2 i s of
        None \<Rightarrow> None
      | Some (Inl e) \<Rightarrow> Some (Inl e)
      | Some (Inr s') \<Rightarrow> remesh_rings fuel maxLen2 js s')"

text \<open>\<open>remesh(maxLen)\<close>, with \<open>maxLen2 = maxLen*maxLen\<close>.\<close>

definition remesh ::
  "nat \<Rightarrow> real \<Rightarrow> 'a ConnectedParticleSystem_scheme \<Rightarrow>
   (error + 'a ConnectedParticleSystem_scheme) option" where
  "remesh fuel maxLen s = remesh_rings fuel (maxLen * maxLen) [0..<length (mSegments s)] s"

section \<open>The doubly-discrete update (vortexfilament.cpp)\<close>

text \<open>
  Modelled from the spec: class \<open>Quaternion\<close> of quaternion.h, which is not among the
  sources. The spec has the step "rotate the running vector \<open>lT\<close> by a quaternion built
  from \<open>(lT - S_i)\<close> and the scalar \<open>-r\<close>": the constructor takes the imaginary part and the
  real part, \<open>*\<close> is the Hamilton product, \<open>inverse\<close> the conjugate over the squared norm,
  \<open>imag\<close> the imaginary part.
\<close>

datatype Quaternion = Quaternion (qx: real) (qy: real) (qz: real) (qw: real)

definition quat :: "Vec3 \<Rightarrow> real \<Rightarrow> Quaternion" where
  "quat v w = Quaternion (vx v) (vy v) (vz v) w"

definition qmul :: "Quaternion \<Rightarrow> Quaternion \<Rightarrow> Quaternion" where
  "qmul a b =
     Quaternion (qw a * qx b + qx a * qw b + qy a * qz b - qz a * qy b)
                (qw a * qy b - qx a * qz b + qy a * qw b + qz a * qx b)
                (qw a * qz b + qx a * qy b - qy a * qx b + qz a * qw b)
                (qw a * qw b - qx a * qx b - qy a * qy b - qz a * qz b)"

definition qnormSquare :: "Quaternion \<Rightarrow> real" where
  "qnormSquare a = qx a * qx a + qy a * qy a + qz a * qz a + qw a * qw a"

definition qinverse :: "Quaternion \<Rightarrow> Quaternion" where
  "qinverse a =
     Quaternion (- qx a / qnormSquare a) (- qy a / qnormSquare a) (- qz a / qnormSquare a)
                (qw a / qnormSquare a)"

definition imag :: "Quaternion \<Rightarrow> Vec3" where
  "imag a = Vec3 (qx a) (qy a) (qz a)"

text \<open>
  \<open>darbouxStep\<close>: \<open>rlTS * lT * rlTS.inverse()\<close> with \<open>rlTS = (lTi - Si, -r)\<close> and
  \<open>lT = (lTi, 0)\<close>. When \<open>rlTS\<close> is zero the inverse divides by zero and every component of
  the result is NaN: that is \<open>None\<close>.
\<close>

definition darbouxStep :: "Vec3 \<Rightarrow> Vec3 \<Rightarrow> real \<Rightarrow> Vec3 option" where
  "darbouxStep Si lTi r =
     (if qnormSquare (quat (vsub lTi Si) (- r)) = 0 then None
      else Some (imag (qmul (qmul (quat (vsub lTi Si) (- r)) (quat lTi 0))
                            (qinverse (quat (vsub lTi Si) (- r))))))"

text \<open>
  \<open>monodromy\<close>: \<open>for (int i=0; i<N; i++) { Si = gamma[(i+1)%N]-gamma[i];
  lT = darbouxStep(Si, lT, r); }\<close>. NaN stays NaN in every later step.
\<close>

fun monodromy_loop :: "Vec3 list \<Rightarrow> real \<Rightarrow> nat list \<Rightarrow> Vec3 \<Rightarrow> Vec3 option" where
  "monodromy_loop gamma r [] lT = Some lT"
| "monodromy_loop gamma r (i # js) lT =
     (case darbouxStep (vsub (gamma ! ((i + 1) mod length gamma)) (gamma ! i)) lT r of
        None \<Rightarrow> None
      | Some lT' \<Rightarrow> monodromy_loop gamma r js lT')"

definition monodromy :: "Vec3 list \<Rightarrow> Vec3 \<Rightarrow> real \<Rightarrow> Vec3 option" where
  "monodromy gamma lT_1 r = monodromy_loop gamma r [0..<length gamma] lT_1"

text \<open>
  \<open>powerMethod\<close>, returning \<open>Some lT\<close> for \<open>true\<close> and \<open>None\<close> for \<open>false\<close>. The first
  argument of the loop counts the iterations left of \<open>maxIter = 100\<close>; \<open>epsilon = 1e-4\<close>.
  With \<open>lT\<close> NaN the test \<open>norm(lT-lastLT) < epsilon\<close> is false in this and every later
  iteration, so \<open>false\<close> is returned.
\<close>

fun powerMethod_loop :: "nat \<Rightarrow> Vec3 list \<Rightarrow> real \<Rightarrow> Vec3 \<Rightarrow> Vec3 option" where
  "powerMethod_loop 0 gamma r lT = None"
| "powerMethod_loop (Suc n) gamma r lT =
     (case monodromy gamma lT r of
        None \<Rightarrow> None
      | Some lT' \<Rightarrow>
          if norm3 (vsub lT' lT) < 1 / 10 ^ 4 then Some lT' else powerMethod_loop n gamma r lT')"

definition powerMethod :: "Vec3 list \<Rightarrow> real \<Rightarrow> real \<Rightarrow> Vec3 option" where
  "powerMethod gamma l r = powerMethod_loop 100 gamma r (Vec3 0 0 l)"

text \<open>
  \<open>darboux(from, to, l, r)\<close>. \<open>Failed\<close>: \<open>false\<close> is returned and \<open>to\<close> is untouched.
  \<open>Converged to\<close>: \<open>true\<close> is returned, with the vector written. \<open>ConvergedNonFinite\<close>:
  \<open>true\<close> is returned, but a \<open>darbouxStep\<close> of the writing loop was NaN and was added to an
  entry of \<open>to\<close>. The result of the last step of the loop is not used.
\<close>

datatype darboux_result = Failed | Converged "Vec3 list" | ConvergedNonFinite

fun darboux_loop :: "Vec3 list \<Rightarrow> real \<Rightarrow> nat list \<Rightarrow> Vec3 option \<Rightarrow> Vec3 list option" where
  "darboux_loop frm r [] lT = Some []"
| "darboux_loop frm r (i # js) lT =
     (case lT of
        None \<Rightarrow> None
      | Some t \<Rightarrow>
          (case darboux_loop frm r js
                  (darbouxStep (vsub (frm ! ((i + 1) mod length frm)) (frm ! i)) t r) of
             None \<Rightarrow> None
           | Some tov \<Rightarrow> Some (vadd (frm ! i) t # tov)))"

definition darboux :: "Vec3 list \<Rightarrow> real \<Rightarrow> real \<Rightarrow> darboux_result" where
  "darboux frm l r =
     (case powerMethod frm l r of
        None \<Rightarrow> Failed
      | Some lT \<Rightarrow>
          (case darboux_loop frm r [0..<length frm] (Some lT) of
             None \<Rightarrow> ConvergedNonFinite
           | Some tov \<Rightarrow> Converged tov))"











section \<open>Operation sequences and the properties of the specification\<close>

text \<open>
  A caller's script on a connected store: \<open>add\<close>, \<open>kill\<close>, a compaction (as \<open>clone\<close>
  runs it) and marking a segment as deleted through the accessor \<open>seg(i)\<close>
  (\<open>seg(i).flag |= PDELETE\<close>; the class has no operation of its own for it).
\<close>

datatype op = Add BasicParticleData | Kill int | Compress | MarkSeg int

fun step :: "op \<Rightarrow> ConnectedParticleSystem \<Rightarrow> error + ConnectedParticleSystem" where
  "step (Add d) s = Inr (snd (add d s))"
| "step (Kill i) s = ConnectedParticleSystem_kill i s"
| "step Compress s = ConnectedParticleSystem_compress s"
| "step (MarkSeg i) s =
     (if 0 \<le> i \<and> i < int (length (mSegments s)) then
        Inr (s\<lparr>mSegments := (mSegments s)
               [nat i := (mSegments s ! nat i)\<lparr>rflag := rflag (mSegments s ! nat i) OR PDELETE\<rparr>]\<rparr>)
      else Inl OutOfRange)"

fun run :: "op list \<Rightarrow> ConnectedParticleSystem \<Rightarrow> error + ConnectedParticleSystem" where
  "run [] s = Inr s"
| "run (x # xs) s = (case step x s of Inl e \<Rightarrow> Inl e | Inr s' \<Rightarrow> run xs s')"

text \<open>The live records of a data vector, as a multiset (by value, in any order).\<close>

definition live_mset :: "BasicParticleData list \<Rightarrow> BasicParticleData multiset" where
  "live_mset d = filter_mset (\<lambda>p. \<not> dead p) (mset d)"

text \<open>The number of records that are not marked as deleted (the spec's live count).\<close>

definition spec_live_count :: "'a ParticleSystem_scheme \<Rightarrow> int" where
  "spec_live_count s = int (length (filter (\<lambda>p. \<not> dead p) (mData s)))"


text \<open>A store of \<open>n\<close> live particles at \<open>(0,0,0), (1,0,0), \<dots>\<close>, built by \<open>add\<close>.\<close>

definition particle_at :: "nat \<Rightarrow> BasicParticleData" where
  "particle_at i = \<lparr>pos = Vec3 (real i) 0 0, flag = 0\<rparr>"

definition store_of :: "nat \<Rightarrow> ConnectedParticleSystem" where
  "store_of n = fold (\<lambda>i s. snd (add (particle_at i) s)) [0..<n] ConnectedParticleSystem_init"


definition dead_ring_store :: ConnectedParticleSystem where
  "dead_ring_store = (store_of 3)\<lparr>mSegments := [\<lparr>circulation = 1, indices = [0, 1, 2], rflag = PDELETE\<rparr>]\<rparr>"

text \<open>
  What a run of operations keeps of the segment vector: its length, every circulation, and
  every mark of deletion.
\<close>

definition seg_kept :: "VortexRing list \<Rightarrow> VortexRing list \<Rightarrow> bool" where
  "seg_kept rs rs' \<longleftrightarrow>
     length rs' = length rs \<and>
     (\<forall>q < length rs. circulation (rs' ! q) = circulation (rs ! q) \<and>
                     (\<not> segActive (rs ! q) \<longrightarrow> \<not> segActive (rs' ! q)))"





text \<open>
  The point that \<open>addRing\<close> computes for the loop index \<open>i\<close>: at the angle
  \<open>i/number * 2 pi\<close> in the frame \<open>u, v\<close> around \<open>position\<close>.
\<close>

definition ring_point :: "Vec3 \<Rightarrow> real \<Rightarrow> Vec3 \<Rightarrow> Vec3 \<Rightarrow> int \<Rightarrow> nat \<Rightarrow> Vec3" where
  "ring_point position radius u v number i =
     vadd position (smul radius
       (vadd (smul (cos (real i / real_of_int number * pi * 2)) u)
             (smul (sin (real i / real_of_int number * pi * 2)) v)))"

text \<open>A ring of two points at distance 2, marked as deleted.\<close>

definition long_dead_ring_store :: ConnectedParticleSystem where
  "long_dead_ring_store =
     \<lparr>mDeletes = 0, mDeleteChunk = 0,
      mData = [\<lparr>pos = Vec3 0 0 0, flag = 0\<rparr>, \<lparr>pos = Vec3 2 0 0, flag = 0\<rparr>],
      mSegments = [\<lparr>circulation = 1, indices = [0, 1], rflag = PDELETE\<rparr>]\<rparr>"

text \<open>
  Closed polygons for the Darboux transform: edge \<open>i\<close> runs from node \<open>i\<close> to node
  \<open>(i+1) mod N\<close>; all edges have length \<open>l\<close>; no node coincides with the node two further
  (so no edge is the reverse of the one before it); there are at least three nodes. Every
  planar regular polygon with edge length \<open>l\<close> is of this kind.
\<close>

definition edge :: "Vec3 list \<Rightarrow> nat \<Rightarrow> Vec3" where
  "edge gamma i = vsub (gamma ! ((i + 1) mod length gamma)) (gamma ! i)"

definition equilateral :: "Vec3 list \<Rightarrow> real \<Rightarrow> bool" where
  "equilateral gamma l \<longleftrightarrow> (\<forall>i < length gamma. normSquare (edge gamma i) = l * l)"

definition no_reversal :: "Vec3 list \<Rightarrow> bool" where
  "no_reversal gamma \<longleftrightarrow> (\<forall>i < length gamma. gamma ! i \<noteq> gamma ! ((i + 2) mod length gamma))"

definition closed_equilateral :: "Vec3 list \<Rightarrow> real \<Rightarrow> bool" where
  "closed_equilateral gamma l \<longleftrightarrow> 3 \<le> length gamma \<and> equilateral gamma l \<and> no_reversal gamma"

text \<open>The last edge, reversed: from node 0 to node \<open>N-1\<close>.\<close>

definition back_edge :: "Vec3 list \<Rightarrow> Vec3" where
  "back_edge gamma = vsub (gamma ! (length gamma - 1)) (gamma ! 0)"

text \<open>The unit square, a planar regular 4-gon with edge length 1.\<close>

definition unit_square :: "Vec3 list" where
  "unit_square = [Vec3 0 0 0, Vec3 1 0 0, Vec3 1 1 0, Vec3 0 1 0]"



section \<open>Loop invariants\<close>

text \<open>
  The invariant of the two loops of \<open>ParticleSystem::compress\<close>, at slot \<open>i\<close> with
  \<open>nextRead = nr\<close>: the slots from \<open>nr\<close> on and the slots before \<open>i\<close> hold no record marked
  as deleted, and the live records among the first \<open>nr\<close> slots are the multiset \<open>L\<close>.
\<close>

definition cinv :: "BasicParticleData multiset \<Rightarrow> nat \<Rightarrow> nat \<Rightarrow> int \<Rightarrow> BasicParticleData list \<Rightarrow> bool" where
  "cinv L n i nr d \<longleftrightarrow>
     length d = n \<and> 0 \<le> nr \<and> nr \<le> int n \<and>
     (\<forall>k. nat nr \<le> k \<and> k < n \<longrightarrow> \<not> dead (d ! k)) \<and>
     (\<forall>k < i. \<not> dead (d ! k)) \<and>
     live_mset (take (nat nr) d) = L"


section \<open>Compaction of the data vector\<close>

lemma dead_flag0 [simp]: "\<not> dead (p\<lparr>flag := 0\<rparr>)"
  by (simp add: dead_def)

lemma live_mset_take_Suc:
  "m < length d \<Longrightarrow> live_mset (take (Suc m) d) =
     (if dead (d ! m) then live_mset (take m d) else add_mset (d ! m) (live_mset (take m d)))"
  by (simp add: live_mset_def take_Suc_conv_app_nth)

lemma live_mset_update_dead:
  "i < length xs \<Longrightarrow> dead (xs ! i) \<Longrightarrow>
   live_mset (xs[i := v]) = (if dead v then live_mset xs else add_mset v (live_mset xs))"
proof (induction xs arbitrary: i)
  case Nil then show ?case by simp
next
  case (Cons a xs)
  then show ?case by (cases i) (auto simp: live_mset_def)
qed

lemma cinv_step:
  assumes inv: "cinv L n i nr d" and i: "i < n" and dd: "dead (d ! i)"
  shows "0 \<le> nr - 1 \<and> nr - 1 < int (length d) \<and>
         cinv L n i (nr - 1)
           ((d[i := d ! nat (nr - 1)])
              [nat (nr - 1) := (d[i := d ! nat (nr - 1)] ! nat (nr - 1))\<lparr>flag := 0\<rparr>])"
proof -
  let ?m = "nat (nr - 1)"
  from inv have len: "length d = n" and nr: "0 \<le> nr" "nr \<le> int n"
    and tail: "\<And>k. nat nr \<le> k \<Longrightarrow> k < n \<Longrightarrow> \<not> dead (d ! k)"
    and pre: "\<And>k. k < i \<Longrightarrow> \<not> dead (d ! k)"
    and L: "live_mset (take (nat nr) d) = L"
    by (auto simp: cinv_def)
  have ilt: "i < nat nr" using tail[of i] i dd by (cases "i < nat nr") auto
  then have m: "i \<le> ?m" "?m < n" "Suc ?m = nat nr" using nr by auto
  let ?d1 = "d[i := d ! ?m]"
  let ?d2 = "?d1[?m := (?d1 ! ?m)\<lparr>flag := 0\<rparr>]"
  have take2: "take ?m ?d2 = (take ?m d)[i := d ! ?m]"
    using m len by (simp add: take_update_swap list_update_beyond)
  have Lm: "live_mset (take ?m ?d2) = L"
  proof (cases "i = ?m")
    case True
    then have "take ?m ?d2 = take ?m d" using take2 by (simp add: len)
    moreover have "live_mset (take (Suc ?m) d) = live_mset (take ?m d)"
      using live_mset_take_Suc[of ?m d] m len dd True by simp
    ultimately show ?thesis using L m by simp
  next
    case False
    then have lt: "i < ?m" using m by simp
    have "live_mset ((take ?m d)[i := d ! ?m]) =
          (if dead (d ! ?m) then live_mset (take ?m d) else add_mset (d ! ?m) (live_mset (take ?m d)))"
      using live_mset_update_dead[of i "take ?m d" "d ! ?m"] lt m len dd by simp
    also have "\<dots> = live_mset (take (Suc ?m) d)"
      using live_mset_take_Suc[of ?m d] m len by simp
    finally show ?thesis using take2 L m by simp
  qed
  have tail2: "\<not> dead (?d2 ! k)" if "?m \<le> k" "k < n" for k
  proof (cases "k = ?m")
    case True then show ?thesis using m len by simp
  next
    case False
    then have "nat nr \<le> k" using that m by linarith
    moreover have "?d2 ! k = d ! k" using False that m by simp
    ultimately show ?thesis using tail that by simp
  qed
  have pre2: "\<not> dead (?d2 ! k)" if "k < i" for k
  proof -
    have "?d2 ! k = d ! k" using that m by simp
    then show ?thesis using pre that by simp
  qed
  show ?thesis
    unfolding cinv_def using len nr m Lm tail2 pre2 ilt by auto
qed

lemma compress_while_inv:
  "cinv L n i nr d \<Longrightarrow> i < n \<Longrightarrow>
   \<exists>nr' d'. compress_while i nr d = Inr (nr', d') \<and> cinv L n (Suc i) nr' d'"
proof (induction i nr d rule: compress_while.induct)
  case (1 i nextRead d)
  show ?case
  proof (cases "dead (d ! i)")
    case True
    from cinv_step[OF "1.prems"(1) "1.prems"(2) True]
    have g: "0 \<le> nextRead - 1 \<and> nextRead - 1 < int (length d)"
      and inv': "cinv L n i (nextRead - 1)
           ((d[i := d ! nat (nextRead - 1)])
              [nat (nextRead - 1) := (d[i := d ! nat (nextRead - 1)] ! nat (nextRead - 1))\<lparr>flag := 0\<rparr>])"
      by simp_all
    from "1.IH"[OF True g inv' "1.prems"(2)] show ?thesis
      using True g by (subst compress_while.simps) simp
  next
    case False
    have "cinv L n (Suc i) nextRead d"
      using "1.prems" False unfolding cinv_def by (auto simp: less_Suc_eq)
    then show ?thesis using False by (subst compress_while.simps) simp
  qed
qed

lemma compress_for_inv:
  "cinv L n i nr d \<Longrightarrow> i + k = n \<Longrightarrow>
   \<exists>nr' d'. compress_for [i..<i + k] nr d = Inr (nr', d') \<and> cinv L n n nr' d'"
proof (induction k arbitrary: i nr d)
  case 0
  then show ?case by simp
next
  case (Suc k)
  then have i: "i < n" by simp
  from compress_while_inv[OF Suc.prems(1) i] obtain nr1 d1
    where w: "compress_while i nr d = Inr (nr1, d1)" and inv1: "cinv L n (Suc i) nr1 d1" by blast
  have "Suc i + k = n" using Suc.prems by simp
  from Suc.IH[OF inv1 this] obtain nr' d'
    where f: "compress_for [Suc i..<Suc i + k] nr1 d1 = Inr (nr', d')" and inv': "cinv L n n nr' d'"
    by blast
  have "[i..<i + Suc k] = i # [Suc i..<Suc i + k]" by (simp add: upt_rec)
  then show ?case using w f inv' by simp
qed

lemma cinv_init: "cinv (live_mset d) (length d) 0 (int (length d)) d"
  by (auto simp: cinv_def)

lemma cinv_final:
  assumes "cinv L n n nr d"
  shows "mset (resize (nat nr) d) = L" "\<forall>p \<in> set (resize (nat nr) d). \<not> dead p"
        "length (resize (nat nr) d) = nat nr"
proof -
  from assms have len: "length d = n" and nr: "0 \<le> nr" "nr \<le> int n"
    and pre: "\<And>k. k < n \<Longrightarrow> \<not> dead (d ! k)"
    and L: "live_mset (take (nat nr) d) = L"
    by (auto simp: cinv_def)
  have r: "resize (nat nr) d = take (nat nr) d" using nr len by (simp add: resize_def)
  have alllive: "\<forall>p \<in> set (take (nat nr) d). \<not> dead p"
    using pre len by (auto simp: in_set_conv_nth)
  then show "\<forall>p \<in> set (resize (nat nr) d). \<not> dead p" using r by simp
  have "live_mset (take (nat nr) d) = mset (take (nat nr) d)"
    unfolding live_mset_def using alllive by (simp add: filter_mset_eq_conv)
  then show "mset (resize (nat nr) d) = L" using L r by simp
  show "length (resize (nat nr) d) = nat nr" using r nr len by simp
qed

text \<open>
  \<open>ParticleSystem::compress\<close> never reads outside the vector, and afterwards the data
  vector holds exactly the records that were live, by value and in some order, none of
  them marked as deleted.
\<close>

lemma compress_correct:
  "\<exists>s'. compress s = Inr s' \<and>
        mset (mData s') = live_mset (mData s) \<and>
        (\<forall>p \<in> set (mData s'). \<not> dead p) \<and>
        mDeletes s' = 0 \<and> mDeleteChunk s' = int (length (mData s')) div DELETE_PART"
proof -
  have "cinv (live_mset (mData s)) (length (mData s)) 0 (int (length (mData s))) (mData s)"
    by (rule cinv_init)
  from compress_for_inv[OF this, of "length (mData s)"]
  obtain nr d where f: "compress_for [0..<length (mData s)] (int (length (mData s))) (mData s) = Inr (nr, d)"
    and inv: "cinv (live_mset (mData s)) (length (mData s)) (length (mData s)) nr d"
    by auto
  from cinv_final[OF inv] f show ?thesis by (simp add: compress_def)
qed

section \<open>The renumbering table\<close>







section \<open>Renumbering the segments\<close>

lemma dead_or_PDELETE: "dead (p\<lparr>flag := f OR PDELETE\<rparr>)"
  by (simp add: dead_def PDELETE_def and.commute word_ao_absorbs)

lemma renumber_indices_eq:
  "renumber_indices tbl ks =
     (if (\<forall>k\<in>set ks. 0 \<le> k \<and> k < int (length tbl)) then Inr (map (\<lambda>k. tbl ! nat k) ks)
      else Inl OutOfRange)"
  by (induction ks) auto

lemma renumber_segments_eq:
  "renumber_segments tbl rs =
     (if (\<forall>r\<in>set rs. \<forall>k\<in>set (indices r). 0 \<le> k \<and> k < int (length tbl))
      then Inr (map (\<lambda>r. r\<lparr>indices := map (\<lambda>k. tbl ! nat k) (indices r)\<rparr>) rs)
      else Inl OutOfRange)"
  by (induction rs) (auto simp: renumber_def renumber_indices_eq)

lemma segActive_indices_update [simp]: "segActive (r\<lparr>indices := ks\<rparr>) = segActive r"
  by (simp add: segActive_def)


text \<open>
  Claim C1 (the compaction of a connected store). The claim asks that after a compaction
  no record carries \<open>PDELETE\<close>. \<open>ConnectedParticleSystem::compress\<close> tests each slot once
  (\<open>if\<close>, where \<open>ParticleSystem::compress\<close> has \<open>while\<close>), so a deleted record pulled from
  the tail into a deleted slot stays. Forty particles are added and particles 0 and 39 are
  killed, which does not yet exceed the threshold \<open>40 / 20 = 2\<close>; the third kill, of
  particle 5, runs the compaction, which leaves 38 records: in slot 0 the record of
  particle 39, still marked as deleted.
\<close>

theorem connected_compress_keeps_dead_record:
  "(case run [Kill 0, Kill 39] (store_of 40) of
      Inl e \<Rightarrow> False
    | Inr s \<Rightarrow> mDeletes s = 2 \<and> mDeleteChunk s = 2 \<and> length (mData s) = 40) \<and>
   (case run [Kill 0, Kill 39, Kill 5] (store_of 40) of
      Inl e \<Rightarrow> False
    | Inr s' \<Rightarrow>
        mDeletes s' = 0 \<and> length (mData s') = 38 \<and>
        mData s' ! 0 = \<lparr>pos = Vec3 39 0 0, flag = PDELETE\<rparr> \<and> dead (mData s' ! 0))"
  by code_simp





section \<open>Insertion and deletion marking\<close>

text \<open>
  Claim C8, as stated, fails: \<open>add\<close> sets the threshold from the length of the data
  vector, which counts the records marked as deleted and not yet compacted. With 39
  particles of which one is killed (no compaction: \<open>1 > 39 / 20\<close> is false), \<open>add\<close> sets the
  threshold to \<open>40 / 20 = 2\<close>, while the live records are 39 and \<open>39 / 20 = 1\<close>.
\<close>

theorem add_threshold_counterexample:
  "(case run [Kill 0] (store_of 39) of
      Inl e \<Rightarrow> False
    | Inr s \<Rightarrow>
        mDeleteChunk (snd (add (particle_at 39) s)) = 2 \<and>
        spec_live_count (snd (add (particle_at 39) s)) div DELETE_PART = 1)"
  by code_simp


text \<open>
  Claim C8, amended. \<open>add\<close> appends the record, returns its index and sets the threshold
  to the new length of the data vector (deleted records included) divided by 20. \<open>kill\<close>
  on a slot of the vector sets \<open>PDELETE\<close> on its record, increments the counter and runs
  the compaction exactly when the incremented counter exceeds the threshold.
\<close>

theorem add_kill_behaviour:
  "fst (add d s) = size_ps s \<and>
   mData (snd (add d s)) = mData s @ [d] \<and>
   mDeleteChunk (snd (add d s)) = (size_ps s + 1) div 20 \<and>
   mDeletes (snd (add d s)) = mDeletes s \<and>
   (0 \<le> i \<and> i < size_ps s \<longrightarrow>
      mData (kill_mark (nat i) s) =
        (mData s)[nat i := (mData s ! nat i)\<lparr>flag := flag (mData s ! nat i) OR PDELETE\<rparr>] \<and>
      dead (mData (kill_mark (nat i) s) ! nat i) \<and>
      mDeletes (kill_mark (nat i) s) = mDeletes s + 1 \<and>
      mDeleteChunk (kill_mark (nat i) s) = mDeleteChunk s \<and>
      kill_with cmp i s =
        (if mDeletes s + 1 > mDeleteChunk s then cmp (kill_mark (nat i) s)
         else Inr (kill_mark (nat i) s)))"
  by (auto simp: add_def Let_def size_ps_def DELETE_PART_def kill_mark_def kill_with_def
        dead_or_PDELETE add.commute)


text \<open>Witness for C8: killing particle 1 of three exceeds the threshold 0 and compacts.\<close>

theorem add_kill_behaviour_witness:
  "(0::int) \<le> 1 \<and> 1 < size_ps (store_of 3) \<and>
   dead (mData (kill_mark (nat 1) (store_of 3)) ! nat 1) \<and>
   mDeletes (kill_mark (nat 1) (store_of 3)) = mDeletes (store_of 3) + 1 \<and>
   mDeletes (store_of 3) + 1 > mDeleteChunk (store_of 3) \<and>
   kill_with ConnectedParticleSystem_compress 1 (store_of 3) =
     ConnectedParticleSystem_compress (kill_mark (nat 1) (store_of 3))"
proof -
  have h: "(0::int) \<le> 1 \<and> 1 < size_ps (store_of 3)" by code_simp
  have v: "mDeletes (store_of 3) + 1 > mDeleteChunk (store_of 3)" by code_simp
  from h add_kill_behaviour[of "particle_at 0" "store_of 3" 1 ConnectedParticleSystem_compress]
  have k: "dead (mData (kill_mark (nat 1) (store_of 3)) ! nat 1)"
    "mDeletes (kill_mark (nat 1) (store_of 3)) = mDeletes (store_of 3) + 1"
    "kill_with ConnectedParticleSystem_compress 1 (store_of 3) =
        (if mDeletes (store_of 3) + 1 > mDeleteChunk (store_of 3)
         then ConnectedParticleSystem_compress (kill_mark (nat 1) (store_of 3))
         else Inr (kill_mark (nat 1) (store_of 3)))"
    by blast+
  from k(3) v have "kill_with ConnectedParticleSystem_compress 1 (store_of 3) =
     ConnectedParticleSystem_compress (kill_mark (nat 1) (store_of 3))"
    by (simp only: if_True)
  with h v k(1,2) show ?thesis by blast
qed


section \<open>Segments are never compacted\<close>

lemma add_segments: "mSegments (snd (add d s)) = mSegments s"
  by (simp add: add_def Let_def)

lemma compress_segments:
  "ConnectedParticleSystem_compress s = Inr s' \<Longrightarrow>
   map rflag (mSegments s') = map rflag (mSegments s) \<and>
   map circulation (mSegments s') = map circulation (mSegments s)"
  by (auto simp: ConnectedParticleSystem_compress_def renumber_segments_eq comp_def
           split: sum.splits prod.splits if_splits)

lemma kill_segments:
  "ConnectedParticleSystem_kill i s = Inr s' \<Longrightarrow>
   map rflag (mSegments s') = map rflag (mSegments s) \<and>
   map circulation (mSegments s') = map circulation (mSegments s)"
  unfolding ConnectedParticleSystem_kill_def kill_with_def
  by (auto split: if_splits dest!: compress_segments simp: kill_mark_def)

lemma seg_kept_refl: "seg_kept rs rs"
  by (simp add: seg_kept_def)

lemma seg_kept_trans: "seg_kept a b \<Longrightarrow> seg_kept b c \<Longrightarrow> seg_kept a c"
  by (auto simp: seg_kept_def)

lemma seg_kept_same:
  assumes "map rflag rs' = map rflag rs" "map circulation rs' = map circulation rs"
  shows "seg_kept rs rs'"
proof -
  have l: "length rs' = length rs" using assms(1) by (metis length_map)
  have "rflag (rs' ! q) = rflag (rs ! q) \<and> circulation (rs' ! q) = circulation (rs ! q)"
    if "q < length rs" for q
    using that l assms by (metis nth_map)
  then show ?thesis using l by (simp add: seg_kept_def segActive_def)
qed

lemma segActive_or_PDELETE: "\<not> segActive (r\<lparr>rflag := f OR PDELETE\<rparr>)"
  by (simp add: segActive_def PDELETE_def and.commute word_ao_absorbs)

lemma step_seg_kept: "step x s = Inr s' \<Longrightarrow> seg_kept (mSegments s) (mSegments s')"
proof (cases x)
  case (Add d)
  assume "step x s = Inr s'"
  then show ?thesis using Add by (auto simp: add_segments seg_kept_refl)
next
  case (Kill i)
  assume "step x s = Inr s'"
  then show ?thesis using Kill by (auto dest!: kill_segments intro: seg_kept_same)
next
  case Compress
  assume "step x s = Inr s'"
  then show ?thesis using Compress by (auto dest!: compress_segments intro: seg_kept_same)
next
  case (MarkSeg i)
  assume "step x s = Inr s'"
  then show ?thesis using MarkSeg
    by (auto simp: seg_kept_def nth_list_update segActive_or_PDELETE split: if_splits)
qed

lemma run_seg_kept: "run xs s = Inr s' \<Longrightarrow> seg_kept (mSegments s) (mSegments s')"
proof (induction xs arbitrary: s)
  case Nil
  then show ?case by (simp add: seg_kept_refl)
next
  case (Cons x xs)
  then obtain s1 where s1: "step x s = Inr s1" "run xs s1 = Inr s'"
    by (auto split: sum.splits)
  from step_seg_kept[OF s1(1)] Cons.IH[OF s1(2)] show ?case by (rule seg_kept_trans)
qed


text \<open>
  Claim C9, amended. The store has no counter and no compaction for segments: whatever
  operations run (insertions, kills, compactions, marking segments as deleted), the
  segment vector keeps its length and its circulations, and a segment marked as deleted
  stays in the vector, marked.
\<close>

theorem segments_never_compacted:
  "run xs s = Inr s' \<Longrightarrow>
   length (mSegments s') = length (mSegments s) \<and>
   (\<forall>q < length (mSegments s).
      circulation (mSegments s' ! q) = circulation (mSegments s ! q) \<and>
      (\<not> segActive (mSegments s ! q) \<longrightarrow> \<not> segActive (mSegments s' ! q)))"
  using run_seg_kept[of xs s s'] by (simp add: seg_kept_def)


text \<open>
  Witness for C9: a segment is marked, a particle is killed and the store compacted twice;
  the marked segment is still there, renumbered.
\<close>

theorem segments_never_compacted_witness:
  "run [MarkSeg 0, Kill 1, Compress] ((store_of 3)\<lparr>mSegments := [\<lparr>circulation = 1, indices = [0, 0, 2], rflag = 0\<rparr>]\<rparr>) =
     Inr (\<lparr>mDeletes = 0, mDeleteChunk = 0, mData = [particle_at 0, particle_at 2],
          mSegments = [\<lparr>circulation = 1, indices = [0, 0, 1], rflag = PDELETE\<rparr>]\<rparr>)
   \<and> length [\<lparr>circulation = 1, indices = [0, 0, 1], rflag = PDELETE\<rparr>] = length [\<lparr>circulation = 1::real, indices = [0, 0, 2], rflag = 0\<rparr>]"
proof -
  have r: "run [MarkSeg 0, Kill 1, Compress] ((store_of 3)\<lparr>mSegments := [\<lparr>circulation = 1, indices = [0, 0, 2], rflag = 0\<rparr>]\<rparr>) =
     Inr (\<lparr>mDeletes = 0, mDeleteChunk = 0, mData = [particle_at 0, particle_at 2],
          mSegments = [\<lparr>circulation = 1, indices = [0, 0, 1], rflag = PDELETE\<rparr>]\<rparr>)"
    by code_simp
  from segments_never_compacted[OF r] r show ?thesis by simp
qed


text \<open>
  Claim C9, as stated, fails: from a store with one segment marked as deleted, no sequence
  of operations reaches a store without a deleted segment.
\<close>

theorem segment_compaction_counterexample:
  "\<not> (\<exists>xs s'. run xs dead_ring_store = Inr s' \<and> (\<forall>r \<in> set (mSegments s'). segActive r))"
proof
  assume "\<exists>xs s'. run xs dead_ring_store = Inr s' \<and> (\<forall>r \<in> set (mSegments s'). segActive r)"
  then obtain xs s' where r: "run xs dead_ring_store = Inr s'"
    and a: "\<forall>r \<in> set (mSegments s'). segActive r" by blast
  have d: "mSegments dead_ring_store = [\<lparr>circulation = 1, indices = [0, 1, 2], rflag = PDELETE\<rparr>]"
    by (simp add: dead_ring_store_def)
  have nd: "\<not> segActive \<lparr>circulation = 1, indices = [0, 1, 2], rflag = PDELETE\<rparr>"
    by (simp add: segActive_def PDELETE_def)
  from run_seg_kept[OF r] have "length (mSegments s') = 1" "\<not> segActive (mSegments s' ! 0)"
    using d nd by (simp_all add: seg_kept_def)
  then have "\<exists>r \<in> set (mSegments s'). \<not> segActive r"
    by (metis nth_mem zero_less_one)
  with a show False by blast
qed


section \<open>Grid advection\<close>

text \<open>
  Claim C10. \<open>KnAdvectInGrid\<close> changes the flag of a particle only when the particle was
  active and its advected position is out of bounds or in an obstacle and has \<open>x > 5\<close>; the
  change is setting \<open>PDELETE\<close>. A particle whose position after the kernel has \<open>x \<le> 5\<close>
  keeps its flag, whatever the grid says. The kernel applies this body to every slot.
\<close>

theorem advect_delete_condition:
  "(flag (KnAdvectInGrid_body integrate isInBounds1 isObstacle p) \<noteq> flag p \<longrightarrow>
      \<not> dead p \<and>
      (\<not> isInBounds1 (pos (KnAdvectInGrid_body integrate isInBounds1 isObstacle p)) \<or>
       isObstacle (pos (KnAdvectInGrid_body integrate isInBounds1 isObstacle p))) \<and>
      vx (pos (KnAdvectInGrid_body integrate isInBounds1 isObstacle p)) > 5) \<and>
   (vx (pos (KnAdvectInGrid_body integrate isInBounds1 isObstacle p)) \<le> 5 \<longrightarrow>
      flag (KnAdvectInGrid_body integrate isInBounds1 isObstacle p) = flag p) \<and>
   (flag (KnAdvectInGrid_body integrate isInBounds1 isObstacle p) = flag p \<or>
    flag (KnAdvectInGrid_body integrate isInBounds1 isObstacle p) = flag p OR PDELETE) \<and>
   (\<forall>i < length (mData s).
      mData (KnAdvectInGrid integrate isInBounds1 isObstacle s) ! i =
        KnAdvectInGrid_body integrate isInBounds1 isObstacle (mData s ! i))"
  by (simp add: KnAdvectInGrid_body_def KnAdvectInGrid_def)


text \<open>
  Witness for C10: with every position out of bounds and in an obstacle, a particle
  advected to \<open>x = 5\<close> keeps its flag and a particle advected to \<open>x = 6\<close> is marked.
\<close>

theorem advect_delete_condition_witness:
  "vx (pos (KnAdvectInGrid_body (\<lambda>p. Vec3 1 0 0) (\<lambda>p. False) (\<lambda>p. True) (particle_at 4))) \<le> 5 \<and>
   pos (KnAdvectInGrid_body (\<lambda>p. Vec3 1 0 0) (\<lambda>p. False) (\<lambda>p. True) (particle_at 4)) = Vec3 5 0 0 \<and>
   flag (KnAdvectInGrid_body (\<lambda>p. Vec3 1 0 0) (\<lambda>p. False) (\<lambda>p. True) (particle_at 4)) = flag (particle_at 4) \<and>
   flag (KnAdvectInGrid_body (\<lambda>p. Vec3 1 0 0) (\<lambda>p. False) (\<lambda>p. True) (particle_at 5)) \<noteq> flag (particle_at 5) \<and>
   vx (pos (KnAdvectInGrid_body (\<lambda>p. Vec3 1 0 0) (\<lambda>p. False) (\<lambda>p. True) (particle_at 5))) > 5 \<and>
   (0::nat) < length (mData (store_of 1)) \<and>
   mData (KnAdvectInGrid (\<lambda>p. Vec3 1 0 0) (\<lambda>p. False) (\<lambda>p. True) (store_of 1)) ! 0 =
     KnAdvectInGrid_body (\<lambda>p. Vec3 1 0 0) (\<lambda>p. False) (\<lambda>p. True) (mData (store_of 1) ! 0)"
proof -
  have h1: "vx (pos (KnAdvectInGrid_body (\<lambda>p. Vec3 1 0 0) (\<lambda>p. False) (\<lambda>p. True) (particle_at 4))) \<le> 5"
    and h1': "pos (KnAdvectInGrid_body (\<lambda>p. Vec3 1 0 0) (\<lambda>p. False) (\<lambda>p. True) (particle_at 4)) = Vec3 5 0 0"
    by (simp_all add: KnAdvectInGrid_body_def particle_at_def vadd_def dead_def)
  have h2: "flag (KnAdvectInGrid_body (\<lambda>p. Vec3 1 0 0) (\<lambda>p. False) (\<lambda>p. True) (particle_at 5)) \<noteq> flag (particle_at 5)"
    by (simp add: KnAdvectInGrid_body_def particle_at_def vadd_def dead_def PDELETE_def)
  have h3: "(0::nat) < length (mData (store_of 1))" by code_simp
  show ?thesis
    using h1 h1' h2 h3
      advect_delete_condition[of "\<lambda>p. Vec3 1 0 0" "\<lambda>p. False" "\<lambda>p. True" "particle_at 4" "store_of 1"]
      advect_delete_condition[of "\<lambda>p. Vec3 1 0 0" "\<lambda>p. False" "\<lambda>p. True" "particle_at 5" "store_of 1"]
    by simp
qed

section \<open>The Biot-Savart kernel\<close>

lemma normSquare_zero [simp]: "normSquare (vsub a a) = 0"
  by (simp add: normSquare_def dot_def vsub_def)











section \<open>Ring construction\<close>

lemma addRing_loop_result:
  "indices (fst (addRing_loop position radius u v number js ring s)) =
     indices ring @ map int [length (mData s)..<length (mData s) + length js] \<and>
   circulation (fst (addRing_loop position radius u v number js ring s)) = circulation ring \<and>
   rflag (fst (addRing_loop position radius u v number js ring s)) = rflag ring \<and>
   mData (snd (addRing_loop position radius u v number js ring s)) =
     mData s @ map (\<lambda>i. \<lparr>pos = ring_point position radius u v number i, flag = 0\<rparr>) js \<and>
   mSegments (snd (addRing_loop position radius u v number js ring s)) = mSegments s"
proof (induction js arbitrary: ring s)
  case Nil
  then show ?case by simp
next
  case (Cons i js)
  let ?p = "\<lparr>pos = ring_point position radius u v number i, flag = 0\<rparr>"
  have a: "fst (add ?p s) = int (length (mData s))" "mData (snd (add ?p s)) = mData s @ [?p]"
    "mSegments (snd (add ?p s)) = mSegments s"
    by (simp_all add: add_def Let_def)
  have u: "[length (mData s)..<Suc (length (mData s) + length js)] =
           length (mData s) # [Suc (length (mData s))..<Suc (length (mData s) + length js)]"
    by (simp add: upt_conv_Cons del: upt_Suc)
  have step: "addRing_loop position radius u v number (i # js) ring s =
      addRing_loop position radius u v number js
        (ring\<lparr>indices := indices ring @ [fst (add ?p s)]\<rparr>) (snd (add ?p s))"
    by (simp add: ring_point_def)
  show ?case
    unfolding step
    using Cons.IH[of "ring\<lparr>indices := indices ring @ [fst (add ?p s)]\<rparr>" "snd (add ?p s)"]
    by (simp add: a u del: upt_Suc)
qed

lemma sum_squares_zero3:
  fixes a b c :: real
  shows "a * a + b * b + c * c = 0 \<longleftrightarrow> a = 0 \<and> b = 0 \<and> c = 0"
proof
  assume z: "a * a + b * b + c * c = 0"
  have "0 \<le> a * a" "0 \<le> b * b" "0 \<le> c * c" by simp_all
  with z have "a * a = 0" "b * b = 0" "c * c = 0" by linarith+
  then show "a = 0 \<and> b = 0 \<and> c = 0" by simp
qed simp

lemma normSquare_eq_0: "normSquare a = 0 \<longleftrightarrow> a = Vec3 0 0 0"
  by (cases a) (simp add: normSquare_def dot_def sum_squares_zero3)

lemma normSquare_smul: "normSquare (smul c a) = c * c * normSquare a"
  by (simp add: normSquare_def dot_def smul_def algebra_simps)

lemma dot_smul_left: "dot (smul c a) b = c * dot a b"
  by (simp add: dot_def smul_def algebra_simps)

lemma getNormalized_unit:
  assumes "a \<noteq> Vec3 0 0 0"
  shows "normSquare (getNormalized a) = 1"
proof -
  have q: "normSquare a \<noteq> 0" using assms by (simp add: normSquare_eq_0)
  have "0 \<le> normSquare a" by (simp add: normSquare_def dot_def)
  then have "sqrt (normSquare a) * sqrt (normSquare a) = normSquare a" by simp
  then have "(1 / norm3 a) * (1 / norm3 a) * normSquare a = 1"
    using q by (simp add: norm3_def)
  then show ?thesis using q by (simp add: getNormalized_def normSquare_smul)
qed

lemma getNormalized_of_unit: "normSquare a = 1 \<Longrightarrow> getNormalized a = a"
  by (cases a) (simp add: getNormalized_def norm3_def smul_def)

lemma dot_getNormalized_0: "dot a b = 0 \<Longrightarrow> dot (getNormalized a) b = 0"
  by (simp add: getNormalized_def dot_smul_left)

lemma dot_cross_1: "dot (cross a b) a = 0"
  by (simp add: dot_def cross_def algebra_simps)

lemma dot_cross_2: "dot (cross a b) b = 0"
  by (simp add: dot_def cross_def algebra_simps)

lemma normSquare_cross:
  "normSquare (cross a b) = normSquare a * normSquare b - dot a b * dot a b"
  by (simp add: normSquare_def dot_def cross_def algebra_simps)

lemma dot_commute: "dot a b = dot b a"
  by (simp add: dot_def mult.commute)

lemma worldup_not_parallel:
  assumes unit: "normSquare normal = 1" and nd: "normal \<noteq> Vec3 0 (- 1) 0"
  shows "cross normal (addRing_worldup normal) \<noteq> Vec3 0 0 0"
proof (cases "norm3 (vsub normal (Vec3 0 1 0)) < 1 / 10 ^ 5")
  case True
  obtain a b c where n: "normal = Vec3 a b c" by (cases normal)
  show ?thesis
  proof
    assume "cross normal (addRing_worldup normal) = Vec3 0 0 0"
    then have bc: "b = 0" "c = 0" using True by (simp_all add: addRing_worldup_def n cross_def)
    then have "a * a = 1" using unit by (simp add: n normSquare_def dot_def)
    then have "normSquare (vsub normal (Vec3 0 1 0)) = 2"
      using bc by (simp add: n normSquare_def dot_def vsub_def)
    then have "norm3 (vsub normal (Vec3 0 1 0)) \<ge> 1"
      by (simp add: norm3_def)
    with True show False by simp
  qed
next
  case False
  obtain a b c where n: "normal = Vec3 a b c" by (cases normal)
  show ?thesis
  proof
    assume "cross normal (addRing_worldup normal) = Vec3 0 0 0"
    then have ac: "a = 0" "c = 0" using False by (simp_all add: addRing_worldup_def n cross_def)
    then have "b * b = 1" using unit by (simp add: n normSquare_def dot_def)
    then have "(b - 1) * (b + 1) = 0" by (simp add: algebra_simps)
    then have "b = 1 \<or> b = - 1" by auto
    then show False
    proof
      assume "b = 1"
      then have "norm3 (vsub normal (Vec3 0 1 0)) = 0"
        using ac by (simp add: n norm3_def normSquare_def dot_def vsub_def)
      with False show False by simp
    next
      assume "b = - 1"
      with ac nd show False by (simp add: n)
    qed
  qed
qed

lemma addRing_basis:
  assumes unit: "normSquare normal = 1" and nd: "normal \<noteq> Vec3 0 (- 1) 0"
  shows "normSquare (addRing_u normal) = 1" "normSquare (addRing_v normal) = 1"
    "dot (addRing_u normal) (addRing_v normal) = 0"
    "dot (addRing_u normal) normal = 0" "dot (addRing_v normal) normal = 0"
proof -
  have gn: "getNormalized normal = normal" using unit by (rule getNormalized_of_unit)
  let ?c = "cross normal (addRing_worldup normal)"
  have u: "addRing_u normal = getNormalized ?c" by (simp add: addRing_u_def gn)
  have c0: "?c \<noteq> Vec3 0 0 0" by (rule worldup_not_parallel[OF unit nd])
  show u1: "normSquare (addRing_u normal) = 1" unfolding u by (rule getNormalized_unit[OF c0])
  show un: "dot (addRing_u normal) normal = 0"
    unfolding u by (rule dot_getNormalized_0) (rule dot_cross_1)
  have nu: "dot normal (addRing_u normal) = 0" using un by (simp add: dot_commute)
  have "normSquare (cross normal (addRing_u normal)) = 1"
    by (simp add: normSquare_cross unit u1 nu)
  then have v: "addRing_v normal = cross normal (addRing_u normal)"
    by (simp add: addRing_v_def gn getNormalized_of_unit)
  show "normSquare (addRing_v normal) = 1"
    unfolding v by (simp add: normSquare_cross unit u1 nu)
  show "dot (addRing_v normal) normal = 0" unfolding v by (rule dot_cross_1)
  have "dot (addRing_v normal) (addRing_u normal) = 0" unfolding v by (rule dot_cross_2)
  then show "dot (addRing_u normal) (addRing_v normal) = 0" by (simp add: dot_commute)
qed

lemma ring_point_on_circle:
  assumes "normSquare u = 1" "normSquare v = 1" "dot u v = 0" "dot u n = 0" "dot v n = 0"
  shows "normSquare (vsub (ring_point position radius u v number i) position) = radius * radius"
    and "dot (vsub (ring_point position radius u v number i) position) n = 0"
proof -
  let ?C = "cos (real i / real_of_int number * pi * 2)"
  let ?S = "sin (real i / real_of_int number * pi * 2)"
  let ?w = "vadd (smul ?C u) (smul ?S v)"
  have d: "vsub (ring_point position radius u v number i) position = smul radius ?w"
    by (cases position; cases u; cases v) (simp add: ring_point_def vsub_def vadd_def smul_def)
  have "normSquare ?w = ?C * ?C * normSquare u + 2 * ?C * ?S * dot u v + ?S * ?S * normSquare v"
    by (simp add: normSquare_def dot_def vadd_def smul_def algebra_simps)
  also have "\<dots> = ?C * ?C + ?S * ?S" using assms by simp
  also have "\<dots> = 1" using sin_cos_squared_add2[of "real i / real_of_int number * pi * 2"]
    by (simp add: power2_eq_square)
  finally have w1: "normSquare ?w = 1" .
  show "normSquare (vsub (ring_point position radius u v number i) position) = radius * radius"
    unfolding d normSquare_smul w1 by simp
  have "dot ?w n = ?C * dot u n + ?S * dot v n"
    by (simp add: dot_def vadd_def smul_def algebra_simps)
  then have "dot ?w n = 0" using assms by simp
  then show "dot (vsub (ring_point position radius u v number i) position) n = 0"
    unfolding d dot_smul_left by simp
qed

text \<open>
  What \<open>addRing\<close> does for every unit normal other than \<open>(0,-1,0)\<close>: the basis \<open>u, v\<close> is
  orthonormal and orthogonal to the normal, exactly \<open>number\<close> particles are appended, at
  distance \<open>|radius|\<close> from the center in the plane orthogonal to the normal and at the
  angles \<open>i/number * 2 pi\<close>, and one segment with the given circulation and the new indices
  in insertion order is appended.
\<close>

lemma addRing_regular:
  assumes unit: "normSquare normal = 1" and nd: "normal \<noteq> Vec3 0 (- 1) 0"
  shows "mData (addRing position circ radius normal number s) =
           mData s @ map (\<lambda>i. \<lparr>pos = ring_point position radius (addRing_u normal) (addRing_v normal) number i,
                                flag = 0\<rparr>) [0..<nat number]"
    and "mSegments (addRing position circ radius normal number s) =
           mSegments s @ [\<lparr>circulation = circ,
                           indices = map int [length (mData s)..<length (mData s) + nat number],
                           rflag = 0\<rparr>]"
    and "normSquare (vsub (ring_point position radius (addRing_u normal) (addRing_v normal) number i) position)
           = radius * radius"
    and "dot (vsub (ring_point position radius (addRing_u normal) (addRing_v normal) number i) position) normal = 0"
    and "normSquare (addRing_u normal) = 1 \<and> normSquare (addRing_v normal) = 1 \<and>
         dot (addRing_u normal) (addRing_v normal) = 0"
proof -
  note b = addRing_basis[OF unit nd]
  let ?res = "addRing_loop position radius (addRing_u normal) (addRing_v normal) number
                [0..<nat number] \<lparr>circulation = circ, indices = [], rflag = 0\<rparr> s"
  note r = addRing_loop_result[of position radius "addRing_u normal" "addRing_v normal" number
      "[0..<nat number]" "\<lparr>circulation = circ, indices = [], rflag = 0\<rparr>" s]
  have ar: "addRing position circ radius normal number s =
        (snd ?res)\<lparr>mSegments := mSegments (snd ?res) @ [fst ?res]\<rparr>"
    by (simp add: addRing_def split: prod.splits)
  show "mData (addRing position circ radius normal number s) =
           mData s @ map (\<lambda>i. \<lparr>pos = ring_point position radius (addRing_u normal) (addRing_v normal) number i,
                                flag = 0\<rparr>) [0..<nat number]"
    using r by (simp add: ar)
  have "fst ?res = \<lparr>circulation = circ,
                     indices = map int [length (mData s)..<length (mData s) + nat number],
                     rflag = 0\<rparr>"
    using r by (cases "fst ?res") simp
  then show "mSegments (addRing position circ radius normal number s) =
           mSegments s @ [\<lparr>circulation = circ,
                           indices = map int [length (mData s)..<length (mData s) + nat number],
                           rflag = 0\<rparr>]"
    using r by (simp add: ar)
  show "normSquare (vsub (ring_point position radius (addRing_u normal) (addRing_v normal) number i) position)
           = radius * radius"
    by (rule ring_point_on_circle(1)[OF b])
  show "dot (vsub (ring_point position radius (addRing_u normal) (addRing_v normal) number i) position) normal = 0"
    by (rule ring_point_on_circle(2)[OF b])
  show "normSquare (addRing_u normal) = 1 \<and> normSquare (addRing_v normal) = 1 \<and>
         dot (addRing_u normal) (addRing_v normal) = 0"
    using b by simp
qed

lemma norm3_less_iff: "0 < c \<Longrightarrow> norm3 v < c \<longleftrightarrow> normSquare v < c * c"
  unfolding norm3_def
  by (metis abs_of_pos power2_eq_square real_sqrt_abs real_sqrt_less_iff)

text \<open>
  Claim C4 (ring construction). The claim asks that, for every unit normal, the new
  particles lie at distance \<open>radius\<close> from the center. \<open>addRing\<close> replaces the reference axis
  \<open>(0,1,0)\<close> only when the normal is within \<open>1e-5\<close> of it, not when the normal is the
  opposite vector \<open>(0,-1,0)\<close>: there \<open>cross(normal, worldup)\<close> is zero, the basis \<open>u, v\<close> is
  degenerate and all four particles of a ring of radius 1 are placed at the center. For
  every other unit normal the ring is as claimed (\<open>addRing_regular\<close>).
\<close>

theorem addRing_degenerate_basis:
  "addRing (Vec3 0 0 0) 1 1 (Vec3 0 (- 1) 0) 4 ConnectedParticleSystem_init =
     \<lparr>mDeletes = 0, mDeleteChunk = 0,
      mData = [\<lparr>pos = Vec3 0 0 0, flag = 0\<rparr>, \<lparr>pos = Vec3 0 0 0, flag = 0\<rparr>,
               \<lparr>pos = Vec3 0 0 0, flag = 0\<rparr>, \<lparr>pos = Vec3 0 0 0, flag = 0\<rparr>],
      mSegments = [\<lparr>circulation = 1, indices = [0, 1, 2, 3], rflag = 0\<rparr>]\<rparr>"
proof -
  have n: "getNormalized (Vec3 0 (- 1) 0) = Vec3 0 (- 1) 0"
    by (simp add: getNormalized_def normSquare_def dot_def norm3_def smul_def)
  have "norm3 (vsub (Vec3 0 (- 1) 0) (Vec3 0 1 0)) = 2"
    by (simp add: norm3_def normSquare_def dot_def vsub_def)
  then have w: "addRing_worldup (Vec3 0 (- 1) 0) = Vec3 0 1 0"
    by (simp add: addRing_worldup_def)
  have c0: "cross (Vec3 0 (- 1) 0) (Vec3 0 1 0) = Vec3 0 0 0"
    "cross (Vec3 0 (- 1) 0) (Vec3 0 0 0) = Vec3 0 0 0"
    by (simp_all add: cross_def)
  have z: "getNormalized (Vec3 0 0 0) = Vec3 0 0 0"
    by (simp add: getNormalized_def normSquare_def dot_def)
  have u: "addRing_u (Vec3 0 (- 1) 0) = Vec3 0 0 0"
    unfolding addRing_u_def n w c0 z ..
  have v: "addRing_v (Vec3 0 (- 1) 0) = Vec3 0 0 0"
    unfolding addRing_v_def n u c0 z ..
  have l: "[0..<4] = [0, 1, 2, Suc 2]" by (simp add: upt_rec)
  show ?thesis
    by (simp add: addRing_def u v l add_def ConnectedParticleSystem_init_def smul_def vadd_def
        DELETE_PART_def)
qed

section \<open>Remeshing\<close>

text \<open>
  Claim C6 (remeshing). The claim asks that only live rings are scanned and modified.
  The loop of \<open>remesh\<close> takes every segment and never tests its flag (as the kernel and
  \<open>doublyDiscreteUpdate\<close> do): on a store whose only ring is marked as deleted and has two
  edges of length 2, \<open>remesh(1.5)\<close> adds two midpoint particles and rewrites the deleted
  ring's index list from \<open>[0, 1]\<close> to \<open>[0, 2, 1, 3]\<close>.
\<close>

theorem remesh_modifies_dead_ring:
  "\<not> segActive (mSegments long_dead_ring_store ! 0) \<and>
   remesh 2 (3 / 2) long_dead_ring_store =
     Some (Inr \<lparr>mDeletes = 0, mDeleteChunk = 0,
            mData = [\<lparr>pos = Vec3 0 0 0, flag = 0\<rparr>, \<lparr>pos = Vec3 2 0 0, flag = 0\<rparr>,
                     \<lparr>pos = Vec3 1 0 0, flag = 0\<rparr>, \<lparr>pos = Vec3 1 0 0, flag = 0\<rparr>],
            mSegments = [\<lparr>circulation = 1, indices = [0, 2, 1, 3], rflag = PDELETE\<rparr>]\<rparr>)"
  by code_simp


section \<open>The Darboux transform with \<open>r = 0\<close>\<close>

lemma rotation_algebra:
  fixes t1 t2 t3 s1 s2 s3 i :: real
  assumes h: "t1 * t1 + t2 * t2 + t3 * t3 = s1 * s1 + s2 * s2 + s3 * s3"
    and qi: "((t1 - s1) * (t1 - s1) + (t2 - s2) * (t2 - s2) + (t3 - s3) * (t3 - s3)) * i = 1"
  shows "imag (qmul (qmul (Quaternion (t1 - s1) (t2 - s2) (t3 - s3) 0) (Quaternion t1 t2 t3 0))
                    (Quaternion (- (t1 - s1) * i) (- (t2 - s2) * i) (- (t3 - s3) * i) (0 * i)))
         = Vec3 (- s1) (- s2) (- s3)"
proof -
  have "qx (qmul (qmul (Quaternion (t1 - s1) (t2 - s2) (t3 - s3) 0) (Quaternion t1 t2 t3 0))
                    (Quaternion (- (t1 - s1) * i) (- (t2 - s2) * i) (- (t3 - s3) * i) (0 * i))) = - s1"
    unfolding qmul_def Quaternion.sel using h qi by algebra
  moreover have "qy (qmul (qmul (Quaternion (t1 - s1) (t2 - s2) (t3 - s3) 0) (Quaternion t1 t2 t3 0))
                    (Quaternion (- (t1 - s1) * i) (- (t2 - s2) * i) (- (t3 - s3) * i) (0 * i))) = - s2"
    unfolding qmul_def Quaternion.sel using h qi by algebra
  moreover have "qz (qmul (qmul (Quaternion (t1 - s1) (t2 - s2) (t3 - s3) 0) (Quaternion t1 t2 t3 0))
                    (Quaternion (- (t1 - s1) * i) (- (t2 - s2) * i) (- (t3 - s3) * i) (0 * i))) = - s3"
    unfolding qmul_def Quaternion.sel using h qi by algebra
  ultimately show ?thesis by (simp add: imag_def)
qed

lemma darbouxStep_zero:
  assumes n: "normSquare T = normSquare (vsub b a)" and ne: "T \<noteq> vsub b a"
  shows "darbouxStep (vsub b a) T 0 = Some (vsub a b)"
proof -
  obtain t1 t2 t3 where T: "T = Vec3 t1 t2 t3" by (cases T)
  obtain s1 s2 s3 where S: "vsub b a = Vec3 s1 s2 s3" by (cases "vsub b a")
  have nb: "vsub a b = Vec3 (- s1) (- s2) (- s3)"
    using S by (cases a; cases b) (simp add: vsub_def)
  from n have h: "t1 * t1 + t2 * t2 + t3 * t3 = s1 * s1 + s2 * s2 + s3 * s3"
    by (simp add: T S normSquare_def dot_def)
  define q where "q = (t1 - s1) * (t1 - s1) + (t2 - s2) * (t2 - s2) + (t3 - s3) * (t3 - s3)"
  have q0: "q \<noteq> 0"
    unfolding q_def using ne by (simp add: sum_squares_zero3 T S)
  then have qi: "q * inverse q = 1" by simp
  define QA where "QA = Quaternion (t1 - s1) (t2 - s2) (t3 - s3) 0"
  have qv: "quat (vsub T (Vec3 s1 s2 s3)) (- 0) = QA" "quat T 0 = Quaternion t1 t2 t3 0"
    by (simp_all add: T quat_def vsub_def QA_def)
  have qn: "qnormSquare QA = q"
    by (simp add: QA_def qnormSquare_def q_def)
  have inv: "qinverse QA =
      Quaternion (- (t1 - s1) * inverse q) (- (t2 - s2) * inverse q) (- (t3 - s3) * inverse q)
                 (0 * inverse q)"
    unfolding qinverse_def qn by (simp add: QA_def divide_inverse)
  have "darbouxStep (Vec3 s1 s2 s3) T 0 =
          Some (imag (qmul (qmul QA (Quaternion t1 t2 t3 0)) (qinverse QA)))"
    unfolding darbouxStep_def qv using q0 qn by simp
  also have "\<dots> = Some (Vec3 (- s1) (- s2) (- s3))"
    unfolding inv unfolding QA_def q_def
    using rotation_algebra[OF h qi[unfolded q_def]] by (simp only:)
  finally show ?thesis unfolding S nb .
qed


lemma normSquare_vsub_swap: "normSquare (vsub a b) = normSquare (vsub b a)"
  by (simp add: normSquare_def dot_def vsub_def algebra_simps)

lemma vsub_cancel_right: "vsub a c = vsub b c \<longleftrightarrow> a = b"
  by (cases a; cases b; cases c) (simp add: vsub_def)

lemma vadd_vsub_cancel: "vadd a (vsub b a) = b"
  by (cases a; cases b) (simp add: vadd_def vsub_def)

lemma norm3_vsub_self: "norm3 (vsub a a) = 0"
  by (simp add: norm3_def normSquare_def dot_def vsub_def)

lemma monodromy_loop_append:
  "monodromy_loop gamma r (xs @ ys) lT =
     (case monodromy_loop gamma r xs lT of None \<Rightarrow> None | Some t \<Rightarrow> monodromy_loop gamma r ys t)"
  by (induction xs arbitrary: lT) (auto split: option.splits)

lemma step_along:
  assumes ce: "closed_equilateral gamma l" and j: "j < length gamma"
    and T: "normSquare T = l * l" and ne: "T \<noteq> edge gamma j"
  shows "darbouxStep (vsub (gamma ! ((j + 1) mod length gamma)) (gamma ! j)) T 0 =
           Some (vsub (gamma ! j) (gamma ! ((j + 1) mod length gamma)))"
proof -
  from ce j have "normSquare (edge gamma j) = l * l"
    by (simp add: closed_equilateral_def equilateral_def)
  then have "normSquare T = normSquare (vsub (gamma ! ((j + 1) mod length gamma)) (gamma ! j))"
    using T by (simp add: edge_def)
  then show ?thesis using ne unfolding edge_def by (rule darbouxStep_zero)
qed

lemma back_edge_ok:
  assumes ce: "closed_equilateral gamma l" and j: "j < length gamma"
  shows "normSquare (vsub (gamma ! j) (gamma ! ((j + 1) mod length gamma))) = l * l"
    and "vsub (gamma ! j) (gamma ! ((j + 1) mod length gamma)) \<noteq> edge gamma ((j + 1) mod length gamma)"
proof -
  let ?N = "length gamma"
  from ce j have "normSquare (edge gamma j) = l * l"
    by (simp add: closed_equilateral_def equilateral_def)
  then show "normSquare (vsub (gamma ! j) (gamma ! ((j + 1) mod ?N))) = l * l"
    by (simp add: edge_def normSquare_vsub_swap)
  from ce j have "gamma ! j \<noteq> gamma ! ((j + 2) mod ?N)"
    by (simp add: closed_equilateral_def no_reversal_def)
  moreover have "((j + 1) mod ?N + 1) mod ?N = (j + 2) mod ?N"
    by (simp add: mod_simps)
  ultimately show "vsub (gamma ! j) (gamma ! ((j + 1) mod ?N)) \<noteq> edge gamma ((j + 1) mod ?N)"
    by (simp add: edge_def vsub_cancel_right)
qed

lemma monodromy_prefix:
  assumes ce: "closed_equilateral gamma l"
    and T: "normSquare T = l * l" and ne: "T \<noteq> edge gamma 0"
  shows "k < length gamma \<Longrightarrow>
         monodromy_loop gamma 0 [0..<Suc k] T =
           Some (vsub (gamma ! k) (gamma ! ((k + 1) mod length gamma)))"
proof (induction k)
  case 0
  have "[0..<Suc 0] = [0]" by simp
  then show ?case using step_along[OF ce 0 T ne] by simp
next
  case (Suc k)
  let ?N = "length gamma"
  have k: "k < ?N" and k1: "Suc k mod ?N = Suc k" using Suc.prems by simp_all
  from back_edge_ok[OF ce k]
  have n: "normSquare (vsub (gamma ! k) (gamma ! Suc k)) = l * l"
    and d: "vsub (gamma ! k) (gamma ! Suc k) \<noteq> edge gamma (Suc k)"
    by (simp_all add: k1)
  have k1a: "(k + 1) mod ?N = Suc k" using Suc.prems by simp
  have IH: "monodromy_loop gamma 0 [0..<Suc k] T = Some (vsub (gamma ! k) (gamma ! Suc k))"
    using Suc.IH[OF k] by (simp only: k1a)
  have split: "[0..<Suc (Suc k)] = [0..<Suc k] @ [Suc k]" by simp
  have "monodromy_loop gamma 0 [0..<Suc (Suc k)] T =
        (case monodromy_loop gamma 0 [0..<Suc k] T of None \<Rightarrow> None
         | Some t \<Rightarrow> monodromy_loop gamma 0 [Suc k] t)"
    unfolding split by (rule monodromy_loop_append)
  also have "\<dots> = monodromy_loop gamma 0 [Suc k] (vsub (gamma ! k) (gamma ! Suc k))"
    by (simp only: IH option.case)
  also have "\<dots> = Some (vsub (gamma ! Suc k) (gamma ! ((Suc k + 1) mod ?N)))"
    using step_along[OF ce Suc.prems n d] by simp
  finally show ?case .
qed

lemma monodromy_zero:
  assumes ce: "closed_equilateral gamma l"
    and T: "normSquare T = l * l" and ne: "T \<noteq> edge gamma 0"
  shows "monodromy gamma T 0 = Some (back_edge gamma)"
proof -
  let ?N = "length gamma"
  have N: "3 \<le> ?N" using ce by (simp add: closed_equilateral_def)
  then have a: "?N - 1 < ?N" "Suc (?N - 1) = ?N" by simp_all
  then have m0: "(?N - 1 + 1) mod ?N = 0" by simp
  from monodromy_prefix[OF ce T ne a(1)]
  have "monodromy_loop gamma 0 [0..<Suc (?N - 1)] T =
          Some (vsub (gamma ! (?N - 1)) (gamma ! ((?N - 1 + 1) mod ?N)))" .
  then show ?thesis unfolding monodromy_def back_edge_def by (simp only: a(2) m0)
qed

lemma back_edge_fixed:
  assumes ce: "closed_equilateral gamma l"
  shows "normSquare (back_edge gamma) = l * l" "back_edge gamma \<noteq> edge gamma 0"
proof -
  let ?N = "length gamma"
  have N: "3 \<le> ?N" using ce by (simp add: closed_equilateral_def)
  then have j: "?N - 1 < ?N" and "Suc (?N - 1) = ?N" by simp_all
  then have m: "Suc (?N - 1) mod ?N = 0" by simp
  from back_edge_ok[OF ce j] show "normSquare (back_edge gamma) = l * l"
    "back_edge gamma \<noteq> edge gamma 0"
    unfolding back_edge_def using m by simp_all
qed

lemma powerMethod_loop_fixed:
  assumes "monodromy gamma T r = Some c" and "monodromy gamma c r = Some c"
  shows "powerMethod_loop (Suc (Suc n)) gamma r T = Some c"
  using assms by (simp add: norm3_vsub_self)

lemma powerMethod_zero:
  assumes ce: "closed_equilateral gamma l" and z: "Vec3 0 0 l \<noteq> edge gamma 0"
  shows "powerMethod gamma l 0 = Some (back_edge gamma)"
proof -
  have T: "normSquare (Vec3 0 0 l) = l * l" by (simp add: normSquare_def dot_def)
  have m1: "monodromy gamma (Vec3 0 0 l) 0 = Some (back_edge gamma)"
    by (rule monodromy_zero[OF ce T z])
  have m2: "monodromy gamma (back_edge gamma) 0 = Some (back_edge gamma)"
    by (rule monodromy_zero[OF ce back_edge_fixed[OF ce]])
  have e: "(100::nat) = Suc (Suc 98)" by simp
  show ?thesis
    unfolding powerMethod_def by (subst e) (rule powerMethod_loop_fixed[OF m1 m2])
qed

lemma darboux_loop_zero:
  assumes ce: "closed_equilateral gamma l"
  shows "i0 \<le> length gamma \<Longrightarrow>
     darboux_loop gamma 0 [i0..<length gamma]
       (Some (vsub (gamma ! ((i0 + length gamma - 1) mod length gamma)) (gamma ! (i0 mod length gamma)))) =
     Some (map (\<lambda>i. gamma ! ((i + length gamma - 1) mod length gamma)) [i0..<length gamma])"
proof (induction "length gamma - i0" arbitrary: i0)
  case 0
  then show ?case by simp
next
  case (Suc n)
  let ?N = "length gamma"
  have i0: "i0 < ?N" using Suc.hyps(2) by simp
  let ?j = "(i0 + ?N - 1) mod ?N"
  have pos: "0 < ?N" using i0 by linarith
  have j: "?j < ?N" using pos by (rule mod_less_divisor)
  have jm: "(?j + 1) mod ?N = i0"
  proof -
    have "(?j + 1) mod ?N = (i0 + ?N - 1 + 1) mod ?N" by (simp add: mod_simps)
    also have "i0 + ?N - 1 + 1 = i0 + ?N" using pos by linarith
    finally show ?thesis using i0 by simp
  qed
  note bo = back_edge_ok[OF ce j, unfolded jm]
  have n: "normSquare (vsub (gamma ! ?j) (gamma ! i0)) = l * l"
    and d: "vsub (gamma ! ?j) (gamma ! i0) \<noteq> edge gamma i0"
    by (rule bo)+
  have st: "darbouxStep (vsub (gamma ! ((i0 + 1) mod ?N)) (gamma ! i0)) (vsub (gamma ! ?j) (gamma ! i0)) 0
        = Some (vsub (gamma ! i0) (gamma ! ((i0 + 1) mod ?N)))"
    by (rule step_along[OF ce i0 n d])
  have nx: "(Suc i0 + ?N - 1) mod ?N = i0" using i0 by simp
  have "n = ?N - Suc i0" "Suc i0 \<le> ?N" using Suc.hyps(2) by simp_all
  from Suc.hyps(1)[OF this]
  have IH: "darboux_loop gamma 0 [Suc i0..<?N]
       (Some (vsub (gamma ! i0) (gamma ! (Suc i0 mod ?N)))) =
     Some (map (\<lambda>i. gamma ! ((i + ?N - 1) mod ?N)) [Suc i0..<?N])"
    by (simp only: nx)
  have u: "[i0..<?N] = i0 # [Suc i0..<?N]" using i0 by (simp add: upt_rec)
  have im: "i0 mod ?N = i0" using i0 by simp
  have "darboux_loop gamma 0 (i0 # [Suc i0..<?N]) (Some (vsub (gamma ! ?j) (gamma ! i0))) =
        Some (map (\<lambda>i. gamma ! ((i + ?N - 1) mod ?N)) (i0 # [Suc i0..<?N]))"
    using st IH by (simp add: vadd_vsub_cancel)
  then show ?case
    unfolding im by (simp only: u[symmetric])
qed

lemma darboux_zero:
  assumes ce: "closed_equilateral gamma l" and z: "Vec3 0 0 l \<noteq> edge gamma 0"
  shows "darboux gamma l 0 = Converged (rotate (length gamma - 1) gamma)"
proof -
  let ?N = "length gamma"
  have N: "3 \<le> ?N" using ce by (simp add: closed_equilateral_def)
  have b: "back_edge gamma = vsub (gamma ! ((0 + ?N - 1) mod ?N)) (gamma ! (0 mod ?N))"
    using N by (simp add: back_edge_def)
  have "darboux_loop gamma 0 [0..<?N] (Some (back_edge gamma)) =
          Some (map (\<lambda>i. gamma ! ((i + ?N - 1) mod ?N)) [0..<?N])"
    unfolding b by (rule darboux_loop_zero[OF ce]) simp
  moreover have "map (\<lambda>i. gamma ! ((i + ?N - 1) mod ?N)) [0..<?N] = rotate (?N - 1) gamma"
  proof (rule nth_equalityI)
    show "length (map (\<lambda>i. gamma ! ((i + ?N - 1) mod ?N)) [0..<?N]) = length (rotate (?N - 1) gamma)"
      by simp
  next
    fix i assume "i < length (map (\<lambda>i. gamma ! ((i + ?N - 1) mod ?N)) [0..<?N])"
    then have i: "i < ?N" by simp
    have "(i + ?N - 1) = (?N - 1 + i)" using N by simp
    then show "map (\<lambda>i. gamma ! ((i + ?N - 1) mod ?N)) [0..<?N] ! i = rotate (?N - 1) gamma ! i"
      using i by (simp add: nth_rotate)
  qed
  ultimately show ?thesis
    by (simp add: darboux_def powerMethod_zero[OF ce z])
qed

lemma edge_rotate:
  assumes i: "i < length gamma"
  shows "edge (rotate m gamma) i = edge gamma ((m + i) mod length gamma)"
proof -
  let ?N = "length gamma"
  have pos: "0 < ?N" using i by linarith
  have "(i + 1) mod ?N < ?N" using pos by (rule mod_less_divisor)
  then have "rotate m gamma ! ((i + 1) mod ?N) = gamma ! ((m + (i + 1) mod ?N) mod ?N)"
    by (simp add: nth_rotate)
  moreover have "(m + (i + 1) mod ?N) mod ?N = ((m + i) mod ?N + 1) mod ?N"
    by (simp add: mod_simps)
  moreover have "rotate m gamma ! i = gamma ! ((m + i) mod ?N)" using i by (simp add: nth_rotate)
  ultimately show ?thesis by (simp add: edge_def)
qed

lemma closed_equilateral_rotate:
  assumes ce: "closed_equilateral gamma l"
  shows "closed_equilateral (rotate m gamma) l"
proof -
  let ?N = "length gamma"
  have N: "3 \<le> ?N" and eq: "\<And>i. i < ?N \<Longrightarrow> normSquare (edge gamma i) = l * l"
    and nr: "\<And>i. i < ?N \<Longrightarrow> gamma ! i \<noteq> gamma ! ((i + 2) mod ?N)"
    using ce by (simp_all add: closed_equilateral_def equilateral_def no_reversal_def)
  have e: "normSquare (edge (rotate m gamma) i) = l * l" if "i < ?N" for i
  proof -
    have "0 < ?N" using that by linarith
    then have "(m + i) mod ?N < ?N" by (rule mod_less_divisor)
    from eq[OF this] show ?thesis using that by (simp add: edge_rotate)
  qed
  have r: "rotate m gamma ! i \<noteq> rotate m gamma ! ((i + 2) mod ?N)" if "i < ?N" for i
  proof -
    have "0 < ?N" using that by linarith
    then have "(i + 2) mod ?N < ?N" by (rule mod_less_divisor)
    then have "rotate m gamma ! ((i + 2) mod ?N) = gamma ! ((m + (i + 2) mod ?N) mod ?N)"
      by (simp add: nth_rotate)
    moreover have "(m + (i + 2) mod ?N) mod ?N = ((m + i) mod ?N + 2) mod ?N"
      by (simp add: mod_simps)
    moreover have "rotate m gamma ! i = gamma ! ((m + i) mod ?N)" using that by (simp add: nth_rotate)
    moreover have "(m + i) mod ?N < ?N" using \<open>0 < ?N\<close> by (rule mod_less_divisor)
    ultimately show ?thesis using nr[of "(m + i) mod ?N"] by simp
  qed
  show ?thesis using N e r by (simp add: closed_equilateral_def equilateral_def no_reversal_def)
qed

lemma darboux_round_trip:
  assumes ce: "closed_equilateral gamma l"
    and z0: "Vec3 0 0 l \<noteq> edge gamma 0" and z1: "Vec3 0 0 l \<noteq> edge gamma (length gamma - 1)"
  shows "darboux gamma l 0 = Converged (rotate (length gamma - 1) gamma)"
    and "darboux (rotate (length gamma - 1) gamma) l (- 0) = Converged (rotate (length gamma - 2) gamma)"
proof -
  let ?N = "length gamma"
  have N: "3 \<le> ?N" using ce by (simp add: closed_equilateral_def)
  show "darboux gamma l 0 = Converged (rotate (?N - 1) gamma)" by (rule darboux_zero[OF ce z0])
  have "0 < ?N" using N by linarith
  moreover have "(?N - 1 + 0) mod ?N = ?N - 1" using N by simp
  ultimately have "edge (rotate (?N - 1) gamma) 0 = edge gamma (?N - 1)"
    using edge_rotate[of 0 gamma "?N - 1"] by (simp only:)
  then have z: "Vec3 0 0 l \<noteq> edge (rotate (?N - 1) gamma) 0" using z1 by simp
  have "rotate (?N - 1) (rotate (?N - 1) gamma) = rotate ((?N - 1 + (?N - 1)) mod ?N) gamma"
    by (simp add: rotate_rotate rotate_conv_mod[symmetric])
  moreover have "(?N - 1 + (?N - 1)) mod ?N = ?N - 2"
  proof -
    have "?N - 1 + (?N - 1) = (?N - 2) + ?N" using N by linarith
    then have "(?N - 1 + (?N - 1)) mod ?N = (?N - 2) mod ?N" by (simp only: mod_add_self2)
    also have "\<dots> = ?N - 2" using N by (intro mod_less) linarith
    finally show ?thesis .
  qed
  ultimately show "darboux (rotate (?N - 1) gamma) l (- 0) = Converged (rotate (?N - 2) gamma)"
    using darboux_zero[OF closed_equilateral_rotate[OF ce] z] by simp
qed

lemma unit_square_ok:
  "closed_equilateral unit_square 1" "Vec3 0 0 1 \<noteq> edge unit_square 0"
  "Vec3 0 0 1 \<noteq> edge unit_square (length unit_square - 1)"
  by (simp_all add: closed_equilateral_def equilateral_def no_reversal_def unit_square_def
      All_less_Suc edge_def vsub_def normSquare_def dot_def)

lemma rotate_unit_square:
  "rotate (length unit_square - 1) unit_square = [Vec3 0 1 0, Vec3 0 0 0, Vec3 1 0 0, Vec3 1 1 0]"
  "rotate (length unit_square - 2) unit_square = [Vec3 1 1 0, Vec3 0 1 0, Vec3 0 0 0, Vec3 1 0 0]"
  by (simp_all add: unit_square_def numeral_eq_Suc)

lemma mset_rotate: "mset (rotate n xs) = mset xs"
proof -
  let ?k = "n mod length xs"
  have "mset (rotate n xs) = mset (drop ?k xs) + mset (take ?k xs)"
    by (simp add: rotate_drop_take)
  also have "\<dots> = mset (take ?k xs @ drop ?k xs)"
    by (simp only: mset_append add.commute)
  finally show ?thesis by simp
qed

text \<open>
  Claim C7, amended. Let \<open>gamma\<close> be a closed polygon with at least three nodes, all edges
  of length \<open>l\<close> and no node equal to the node two further (every planar regular N-gon
  with \<open>N \<ge> 3\<close> and edge length \<open>l\<close>, the companion edge length when \<open>d = 0\<close>), and let
  neither its first nor its last edge be the start vector \<open>(0,0,l)\<close> of the power iteration.
  Then with \<open>r = 0\<close> the forward and the backward Darboux transform both converge, and the
  round trip returns the input positions shifted by two nodes: node \<open>i\<close> gets the input
  position of node \<open>i-2\<close>. The set of node positions is the input's; node by node the
  result is not the input.
\<close>

theorem darboux_zero_shifts_nodes:
  assumes "closed_equilateral gamma l"
    and "Vec3 0 0 l \<noteq> edge gamma 0" and "Vec3 0 0 l \<noteq> edge gamma (length gamma - 1)"
  shows "darboux gamma l 0 = Converged (rotate (length gamma - 1) gamma) \<and>
         darboux (rotate (length gamma - 1) gamma) l (- 0) = Converged (rotate (length gamma - 2) gamma) \<and>
         length (rotate (length gamma - 2) gamma) = length gamma \<and>
         (\<forall>i < length gamma.
            rotate (length gamma - 2) gamma ! i = gamma ! ((i + length gamma - 2) mod length gamma)) \<and>
         mset (rotate (length gamma - 2) gamma) = mset gamma"
proof -
  let ?N = "length gamma"
  have N: "3 \<le> ?N" using assms(1) by (simp add: closed_equilateral_def)
  have "rotate (?N - 2) gamma ! i = gamma ! ((i + ?N - 2) mod ?N)" if "i < ?N" for i
  proof -
    have "?N - 2 + i = i + ?N - 2" using N by linarith
    then show ?thesis using that by (simp add: nth_rotate)
  qed
  then show ?thesis
    using darboux_round_trip[OF assms] by (simp add: mset_rotate)
qed

text \<open>
  Witness for C7: the unit square with \<open>l = 1\<close>; after the round trip node 0 holds the
  input position of node 2.
\<close>

theorem darboux_zero_shifts_nodes_witness:
  "closed_equilateral unit_square 1 \<and> Vec3 0 0 1 \<noteq> edge unit_square 0 \<and>
   Vec3 0 0 1 \<noteq> edge unit_square (length unit_square - 1) \<and>
   darboux unit_square 1 0 = Converged (rotate (length unit_square - 1) unit_square) \<and>
   darboux (rotate (length unit_square - 1) unit_square) 1 (- 0) =
     Converged (rotate (length unit_square - 2) unit_square) \<and>
   rotate (length unit_square - 2) unit_square ! 0 = unit_square ! 2 \<and>
   mset (rotate (length unit_square - 2) unit_square) = mset unit_square"
proof -
  have l: "(0::nat) < length unit_square" "(0 + length unit_square - 2) mod length unit_square = 2"
    by (simp_all add: unit_square_def)
  from darboux_zero_shifts_nodes[OF unit_square_ok]
  have "darboux unit_square 1 0 = Converged (rotate (length unit_square - 1) unit_square)"
    "darboux (rotate (length unit_square - 1) unit_square) 1 (- 0) =
       Converged (rotate (length unit_square - 2) unit_square)"
    "\<forall>i < length unit_square.
       rotate (length unit_square - 2) unit_square ! i =
         unit_square ! ((i + length unit_square - 2) mod length unit_square)"
    "mset (rotate (length unit_square - 2) unit_square) = mset unit_square"
    by blast+
  then show ?thesis using unit_square_ok l by (metis (no_types))
qed

text \<open>
  Claim C7, as stated, fails: on the unit square with \<open>l = 1\<close> and \<open>r = 0\<close> the forward
  transform returns the square shifted by one node, the backward transform shifts it by one
  more, and node 0 ends at \<open>(1,1,0)\<close>, at squared distance 2 from where it was. Every
  intermediate value is a small integer or a half, so floating-point arithmetic computes
  the same.
\<close>

theorem darboux_round_trip_counterexample:
  "darboux unit_square 1 0 = Converged [Vec3 0 1 0, Vec3 0 0 0, Vec3 1 0 0, Vec3 1 1 0] \<and>
   darboux [Vec3 0 1 0, Vec3 0 0 0, Vec3 1 0 0, Vec3 1 1 0] 1 (- 0) =
     Converged [Vec3 1 1 0, Vec3 0 1 0, Vec3 0 0 0, Vec3 1 0 0] \<and>
   [Vec3 1 1 0, Vec3 0 1 0, Vec3 0 0 0, Vec3 1 0 0] \<noteq> unit_square \<and>
   normSquare (vsub ([Vec3 1 1 0, Vec3 0 1 0, Vec3 0 0 0, Vec3 1 0 0] ! 0) (unit_square ! 0)) = 2"
  using darboux_round_trip[OF unit_square_ok]
  by (simp add: rotate_unit_square) (simp add: unit_square_def normSquare_def dot_def vsub_def)

section \<open>The doubly-discrete update\<close>









end
